theory Spec2Isabelle
  imports Complex_Main "HOL-Library.Word"
begin

section \<open>The visual secret sharing encoder of main.js\<close>

text \<open>
  The development embeds \<^verbatim>\<open>shareImage\<close> of \<^verbatim>\<open>src/main.js\<close> (lines 145 to 234; the
  second source file holds the same function, character for character) together with
  \<^verbatim>\<open>randInt\<close> (lines 8 to 10).

  \<^item> An \<^verbatim>\<open>ImageData\<close> object is a record of its width, its height and its
    \<^verbatim>\<open>Uint8ClampedArray\<close> of bytes, four per pixel, row-major.
  \<^item> \<^verbatim>\<open>Math.random()\<close> is the platform's: the sequence of its results is the
    parameter \<open>rng\<close>, the n-th call returning \<open>rng n\<close>; the loop state carries the
    number of calls made so far.
  \<^item> A JavaScript number that is finite and not negative is a pair \<open>(m, e)\<close> of integers,
    standing for \<open>m * 2 ^ e\<close>; the product in \<^verbatim>\<open>randInt\<close> is the product of IEEE 754
    double precision, rounded to the nearest double, ties to even, and \<open>Infinity\<close> where
    the rounded product exceeds the doubles.
  \<^item> Reading an array outside its bounds gives \<^verbatim>\<open>undefined\<close> in JavaScript; reading
    an element of \<^verbatim>\<open>undefined\<close> raises a \<^verbatim>\<open>TypeError\<close>. Writing a typed array outside
    its bounds is ignored, which is what \<open>xs[i := v]\<close> does in HOL.
  \<^item> The canvas wrappers around the function (\<^verbatim>\<open>toImageData\<close>, \<^verbatim>\<open>imageData2Image\<close>,
    \<^verbatim>\<open>MyImage\<close>) move pixels in and out of the browser and are not modelled: the
    function is taken from \<^verbatim>\<open>srcImageData\<close> to the pair
    \<^verbatim>\<open>(sharedImageData1, sharedImageData2)\<close>.
\<close>

subsection \<open>Data\<close>

type_synonym byte = "8 word"

record ImageData =
  width :: nat
  height :: nat
  data :: "byte list"

datatype error = IndexSizeError | TypeError

text \<open>Array indexing \<^verbatim>\<open>a[i]\<close> by an integer: \<open>None\<close> is \<^verbatim>\<open>undefined\<close>. Indexing by
  \<open>Infinity\<close> gives \<^verbatim>\<open>undefined\<close> as well, which is \<open>Option.bind\<close> in the body of the loop.\<close>

definition index :: "'a list \<Rightarrow> int \<Rightarrow> 'a option" where
  "index xs i = (if 0 \<le> i \<and> nat i < length xs then Some (xs ! nat i) else None)"

text \<open>Doubles. The pair \<open>(m, e)\<close> stands for the number \<open>m * 2 ^ e\<close>. Every finite double
  that is not negative is such a number with \<open>0 \<le> m < 2 ^ 53\<close> and \<open>- 1074 \<le> e \<le> 971\<close>
  (the subnormal doubles are the multiples of \<open>2 ^ - 1074\<close>), and every such number is a
  double.\<close>

type_synonym double = "int \<times> int"

definition is_double :: "double \<Rightarrow> bool" where
  "is_double u = (case u of (m, e) \<Rightarrow> 0 \<le> m \<and> m < 2 ^ 53 \<and> - 1074 \<le> e \<and> e \<le> 971)"

text \<open>\<open>m * 2 ^ e < 1\<close>, for \<open>m\<close> not negative.\<close>

definition lt_one :: "double \<Rightarrow> bool" where
  "lt_one u = (case u of (m, e) \<Rightarrow> if 0 \<le> e then m * 2 ^ nat e < 1 else m < 2 ^ nat (- e))"

text \<open>The number of low bits that \<open>n\<close> has beyond 53 bits.\<close>

function shift :: "int \<Rightarrow> nat" where
  "shift n = (if n < 2 ^ 53 then 0 else 1 + shift (n div 2))"
  by pat_completeness auto
termination
  by (relation "measure nat") auto

declare shift.simps [simp del]

text \<open>The product \<^verbatim>\<open>u * max\<close> of a double \<open>u\<close> and an array length \<open>mx\<close> (an integer
  below \<open>2 ^ 32\<close>, hence a double): the product \<open>n * 2 ^ e\<close> of the two numbers, with \<open>n\<close>
  rounded to 53 bits, to the nearest and at a tie to the even neighbour. Since \<open>e\<close> is
  at least \<open>- 1074\<close> the result is a double unless it reaches \<open>2 ^ 1024\<close>; then the
  product is \<open>Infinity\<close>, here \<open>None\<close>.\<close>

definition times :: "double \<Rightarrow> nat \<Rightarrow> double option" where
  "times u mx = (case u of (m, e) \<Rightarrow>
     let n = m * int mx;
         s = shift n;
         q = n div 2 ^ s;
         r = n mod 2 ^ s;
         q' = (if 2 ^ s < 2 * r \<or> (2 * r = 2 ^ s \<and> odd q) then q + 1 else q);
         x = e + int s
     in if 0 \<le> x \<and> 2 ^ 1024 \<le> q' * 2 ^ nat x then None else Some (q', x))"

text \<open>\<^verbatim>\<open>Math.floor\<close> of a double that is finite and not negative.\<close>

definition floor_double :: "double \<Rightarrow> int" where
  "floor_double v = (case v of (q, x) \<Rightarrow>
     if 0 \<le> x then q * 2 ^ nat x else q div 2 ^ nat (- x))"

text \<open>\<^verbatim>\<open>function randInt(max) { return Math.floor(Math.random() * max); }\<close>,
  with the result of \<^verbatim>\<open>Math.random()\<close> passed in as \<open>u\<close>. \<^verbatim>\<open>Math.floor\<close> of \<open>Infinity\<close>
  is \<open>Infinity\<close>, here \<open>None\<close>.\<close>

definition randInt :: "double \<Rightarrow> nat \<Rightarrow> int option" where
  "randInt u mx = map_option floor_double (times u mx)"

text \<open>The two tables at the head of \<^verbatim>\<open>shareImage\<close> (lines 146 to 179).\<close>

definition patterns :: "byte list list" where
  "patterns =
    [[0, 0, 0, 0, 0, 0, 0, 0,
      0, 0, 0, 255, 0, 0, 0, 255],
     [0, 0, 0, 255, 0, 0, 0, 255,
      0, 0, 0, 0, 0, 0, 0, 0],
     [0, 0, 0, 0, 0, 0, 0, 255,
      0, 0, 0, 0, 0, 0, 0, 255],
     [0, 0, 0, 255, 0, 0, 0, 0,
      0, 0, 0, 255, 0, 0, 0, 0],
     [0, 0, 0, 0, 0, 0, 0, 255,
      0, 0, 0, 255, 0, 0, 0, 0],
     [0, 0, 0, 255, 0, 0, 0, 0,
      0, 0, 0, 0, 0, 0, 0, 255]]"

definition blackPairs :: "(nat \<times> nat) list" where
  "blackPairs = [(0, 1), (1, 0), (2, 3), (3, 2), (4, 5), (5, 4)]"

text \<open>\<^verbatim>\<open>ctx.createImageData(w, h)\<close> of the canvas API: a raster of transparent black
  (every byte 0); the API raises \<^verbatim>\<open>IndexSizeError\<close> when a dimension is zero.\<close>

definition createImageData :: "nat \<Rightarrow> nat \<Rightarrow> error + ImageData" where
  "createImageData w h =
    (if w = 0 \<or> h = 0 then Inl IndexSizeError
     else Inr \<lparr>width = w, height = h, data = replicate (4 * w * h) 0\<rparr>)"

subsection \<open>The encoder\<close>

text \<open>Lines 200 to 203: the test on the four channels of the pixel at byte offset \<open>i\<close>.
  A comparison of \<^verbatim>\<open>undefined\<close> with a number is false.\<close>

definition isBlack :: "byte list \<Rightarrow> nat \<Rightarrow> bool" where
  "isBlack d i =
    (index d (int (i + 0)) = Some 0 \<and>
     index d (int (i + 1)) = Some 0 \<and>
     index d (int (i + 2)) = Some 0 \<and>
     index d (int (i + 3)) = Some 255)"

text \<open>Lines 197 and 198: the byte offset \<open>j\<close> in a share for the source byte offset \<open>i\<close>.\<close>

definition ystride :: "nat \<Rightarrow> nat \<Rightarrow> nat \<Rightarrow> nat" where
  "ystride sw w i = (i div (sw * 4)) * (w * 4)"

definition offset :: "nat \<Rightarrow> nat \<Rightarrow> nat \<Rightarrow> nat" where
  "offset sw w i = (2 * i) + ystride sw w i"

text \<open>One round of the inner loops (lines 211 to 214 and 220 to 223): four stores, two
  in each share.\<close>

definition store_k ::
  "nat \<Rightarrow> nat \<Rightarrow> byte list \<Rightarrow> byte list \<Rightarrow> nat \<Rightarrow> byte list \<times> byte list \<Rightarrow> byte list \<times> byte list" where
  "store_k j w p1 p2 k = (\<lambda>(d1, d2).
     (d1[j + k := p1 ! k, j + (w * 4) + k := p1 ! (k + 8)],
      d2[j + k := p2 ! k, j + (w * 4) + k := p2 ! (k + 8)]))"

text \<open>\<^verbatim>\<open>for (let k = 0; k < 8; k++) { ... }\<close>\<close>

definition store_block ::
  "nat \<Rightarrow> nat \<Rightarrow> byte list \<Rightarrow> byte list \<Rightarrow> byte list \<times> byte list \<Rightarrow> byte list \<times> byte list" where
  "store_block j w p1 p2 ds = fold (store_k j w p1 p2) [0..<8] ds"

text \<open>The state of the outer loop: the bytes of the two shares and the number of calls
  of \<^verbatim>\<open>Math.random()\<close> made so far.\<close>

type_synonym loop_state = "byte list \<times> byte list \<times> nat"

text \<open>The body of the outer loop (lines 197 to 225) at source byte offset \<open>i\<close>.\<close>

definition body ::
  "(nat \<Rightarrow> double) \<Rightarrow> byte list \<Rightarrow> nat \<Rightarrow> nat \<Rightarrow> nat \<Rightarrow> loop_state \<Rightarrow> error + loop_state" where
  "body rng src sw w i = (\<lambda>(d1, d2, n).
     let j = offset sw w i in
     if isBlack src i then
       (case Option.bind (randInt (rng n) (length blackPairs)) (index blackPairs) of
          None \<Rightarrow> Inl TypeError
        | Some pair \<Rightarrow>
           (case (index patterns (int (fst pair)), index patterns (int (snd pair))) of
              (Some p1, Some p2) \<Rightarrow>
                (case store_block j w p1 p2 (d1, d2) of (e1, e2) \<Rightarrow> Inr (e1, e2, n + 1))
            | _ \<Rightarrow> Inl TypeError))
     else
       (case Option.bind (randInt (rng n) (length patterns)) (index patterns) of
          None \<Rightarrow> Inl TypeError
        | Some p \<Rightarrow>
           (case store_block j w p p (d1, d2) of (e1, e2) \<Rightarrow> Inr (e1, e2, n + 1))))"

text \<open>\<^verbatim>\<open>for (let i = 0; i < srcImageData.data.length; i += 4) { ... }\<close>\<close>

function loop ::
  "(nat \<Rightarrow> double) \<Rightarrow> byte list \<Rightarrow> nat \<Rightarrow> nat \<Rightarrow> nat \<Rightarrow> loop_state \<Rightarrow> error + loop_state" where
  "loop rng src sw w i st =
     (if i < length src then
        (case body rng src sw w i st of
           Inl e \<Rightarrow> Inl e
         | Inr st' \<Rightarrow> loop rng src sw w (i + 4) st')
      else Inr st)"
  by pat_completeness auto
termination
  by (relation "measure (\<lambda>(rng, src, sw, w, i, st). length src - i)") auto

declare loop.simps [simp del]

definition shareImage :: "(nat \<Rightarrow> double) \<Rightarrow> ImageData \<Rightarrow> error + (ImageData \<times> ImageData)" where
  "shareImage rng srcImageData =
    (let sw = width srcImageData;
         w = width srcImageData * 2;
         h = height srcImageData * 2 in
     case createImageData w h of
       Inl e \<Rightarrow> Inl e
     | Inr sharedImageData1 \<Rightarrow>
        (case createImageData w h of
           Inl e \<Rightarrow> Inl e
         | Inr sharedImageData2 \<Rightarrow>
            (case loop rng (data srcImageData) sw w 0
                    (data sharedImageData1, data sharedImageData2, 0) of
               Inl e \<Rightarrow> Inl e
             | Inr (d1, d2, n) \<Rightarrow>
                 Inr (sharedImageData1\<lparr>data := d1\<rparr>, sharedImageData2\<lparr>data := d2\<rparr>))))"

subsection \<open>Reading rasters\<close>

text \<open>An \<^verbatim>\<open>ImageData\<close> object of the browser has positive dimensions and four bytes for
  each pixel.\<close>

definition wf_image :: "ImageData \<Rightarrow> bool" where
  "wf_image img =
    (0 < width img \<and> 0 < height img \<and> length (data img) = 4 * (width img * height img))"

text \<open>\<^verbatim>\<open>Math.random()\<close> returns a double that is at least 0 and less than 1; the
  predicate says so of the first \<open>n\<close> results.\<close>

definition unit_draws :: "(nat \<Rightarrow> double) \<Rightarrow> nat \<Rightarrow> bool" where
  "unit_draws rng n = (\<forall>k \<in> {0..<n}. is_double (rng k) \<and> lt_one (rng k))"

text \<open>The four channels of the pixel in column \<open>X\<close> and row \<open>Y\<close> of a raster.\<close>

definition pixel :: "ImageData \<Rightarrow> nat \<Rightarrow> nat \<Rightarrow> byte list" where
  "pixel img X Y = take 4 (drop (4 * (Y * width img + X)) (data img))"

text \<open>The 2x2 block of a share that belongs to the source pixel \<open>(x, y)\<close>: the pixels
  \<open>(2x, 2y)\<close>, \<open>(2x+1, 2y)\<close>, \<open>(2x, 2y+1)\<close>, \<open>(2x+1, 2y+1)\<close>, in the order of the 16 bytes
  of a pattern.\<close>

definition block :: "ImageData \<Rightarrow> nat \<Rightarrow> nat \<Rightarrow> byte list" where
  "block img x y =
     pixel img (2 * x) (2 * y) @ pixel img (2 * x + 1) (2 * y) @
     pixel img (2 * x) (2 * y + 1) @ pixel img (2 * x + 1) (2 * y + 1)"

text \<open>The byte positions of the pixel \<open>(X, Y)\<close> in a raster of width \<open>W\<close>.\<close>

definition pixel_bytes :: "nat \<Rightarrow> nat \<Rightarrow> nat \<Rightarrow> nat set" where
  "pixel_bytes W X Y = {4 * (Y * W + X) ..< 4 * (Y * W + X) + 4}"

text \<open>The positions that the stores of the inner loop assign, for a block offset \<open>j\<close>
  and a share of width \<open>w\<close>.\<close>

definition written :: "nat \<Rightarrow> nat \<Rightarrow> nat set" where
  "written j w = (\<Union>k \<in> {0..<8}. {j + k, j + (w * 4) + k})"

text \<open>Black and white: a sub-pixel is black when it passes the test of \<open>isBlack\<close>, that
  is, when its bytes are 0, 0, 0, 255, and white otherwise.\<close>

datatype colour = B | W

definition colour_of :: "byte list \<Rightarrow> colour" where
  "colour_of px = (if px = [0, 0, 0, 255] then B else W)"

text \<open>The four sub-pixels of 16 bytes: top-left, top-right, bottom-left, bottom-right.\<close>

definition subpixels :: "byte list \<Rightarrow> byte list list" where
  "subpixels p = [take 4 p, take 4 (drop 4 p), take 4 (drop 8 p), take 4 (drop 12 p)]"

definition colours :: "byte list \<Rightarrow> colour list" where
  "colours p = map colour_of (subpixels p)"

text \<open>Laying one block over another: a position is black when it is black in either.\<close>

definition overlay :: "colour list \<Rightarrow> colour list \<Rightarrow> colour list" where
  "overlay c1 c2 = map2 (\<lambda>a b. if a = B \<or> b = B then B else W) c1 c2"

text \<open>The table of section 4.1 of the specification, as it is printed there; it is
  compared with \<open>patterns\<close> below.\<close>

definition spec_pattern_table :: "colour list list" where
  "spec_pattern_table =
    [[W, W, W, B],
     [W, B, W, W],
     [W, W, B, B],
     [B, W, B, W],
     [W, B, B, W],
     [B, W, W, B]]"

subsection \<open>Auxiliary functions of the proofs\<close>

text \<open>The stores of the first \<open>n\<close> rounds of the inner loop on one share.\<close>

definition stores :: "nat \<Rightarrow> nat \<Rightarrow> nat \<Rightarrow> byte list \<Rightarrow> byte list \<Rightarrow> byte list" where
  "stores n j w4 p d = fold (\<lambda>k d. d[j + k := p ! k, j + w4 + k := p ! (k + 8)]) [0..<n] d"

text \<open>The 16 bytes of a share at the places a block is stored to.\<close>

definition region :: "nat \<Rightarrow> nat \<Rightarrow> byte list \<Rightarrow> byte list" where
  "region j w4 d = take 8 (drop j d) @ take 8 (drop (j + w4) d)"

text \<open>The two patterns that the body of the loop selects, from the result \<open>u\<close> of
  \<^verbatim>\<open>Math.random()\<close> and the outcome of the test \<open>isBlack\<close>.\<close>

definition pick :: "double \<Rightarrow> bool \<Rightarrow> byte list \<times> byte list" where
  "pick u black =
     (let r = nat (the (randInt u 6)) in
      if black then (patterns ! fst (blackPairs ! r), patterns ! snd (blackPairs ! r))
      else (patterns ! r, patterns ! r))"

text \<open>The positions at which 16 bytes are black.\<close>

definition black_at :: "byte list \<Rightarrow> nat set" where
  "black_at p = {k \<in> {0..<4}. colours p ! k = B}"

subsection \<open>Sample inputs\<close>

text \<open>A raster of one white pixel; a raster of a black pixel followed by a white one; a
  raster of a black pixel followed by a grey, partly transparent one.\<close>

definition white_1x1 :: ImageData where
  "white_1x1 = \<lparr>width = 1, height = 1, data = [255, 255, 255, 255]\<rparr>"

definition black_white_2x1 :: ImageData where
  "black_white_2x1 = \<lparr>width = 2, height = 1, data = [0, 0, 0, 255, 255, 255, 255, 255]\<rparr>"

definition black_gray_2x1 :: ImageData where
  "black_gray_2x1 = \<lparr>width = 2, height = 1, data = [0, 0, 0, 255, 128, 128, 128, 200]\<rparr>"

text \<open>Sequences of results of \<^verbatim>\<open>Math.random()\<close>: always 0; first 1/2 and then 1/4;
  always \<open>3752999689475413 / 2 ^ 52\<close>, a double just below 5/6 whose product with 6 is
  rounded to 5.\<close>

definition zero_draws :: "nat \<Rightarrow> double" where
  "zero_draws n = (0, 0)"

definition sample_draws :: "nat \<Rightarrow> double" where
  "sample_draws n = (if n = 0 then (1, - 1) else (1, - 2))"

definition rounding_draws :: "nat \<Rightarrow> double" where
  "rounding_draws n = (3752999689475413, - 52)"

text \<open>What the encoder returns, twice, for \<open>white_1x1\<close> and \<open>zero_draws\<close>.\<close>

definition share_of_white_1x1 :: ImageData where
  "share_of_white_1x1 =
    \<lparr>width = 2, height = 2,
     data = [0, 0, 0, 0, 0, 0, 0, 0,
             0, 0, 0, 255, 0, 0, 0, 255]\<rparr>"

section \<open>The inner loop\<close>

lemma stores_0: "stores 0 j w4 p d = d"
  by (simp add: stores_def)

lemma stores_Suc:
  "stores (Suc n) j w4 p d = (stores n j w4 p d)[j + n := p ! n, j + w4 + n := p ! (n + 8)]"
  by (simp add: stores_def)

lemma fold_store_k:
  "fold (store_k j w p1 p2) [0..<n] (d1, d2) =
     (stores n j (w * 4) p1 d1, stores n j (w * 4) p2 d2)"
  by (induction n) (simp_all add: stores_0 stores_Suc store_k_def)

lemma store_block_stores:
  "store_block j w p1 p2 (d1, d2) = (stores 8 j (w * 4) p1 d1, stores 8 j (w * 4) p2 d2)"
  by (simp add: store_block_def fold_store_k)

lemma length_stores: "length (stores n j w4 p d) = length d"
  by (induction n) (simp_all add: stores_0 stores_Suc)

lemma stores_nth:
  "n \<le> w4 \<Longrightarrow> j + w4 + n \<le> length d \<Longrightarrow> m < length d \<Longrightarrow>
   stores n j w4 p d ! m =
     (if j \<le> m \<and> m < j + n then p ! (m - j)
      else if j + w4 \<le> m \<and> m < j + w4 + n then p ! (m - (j + w4) + 8)
      else d ! m)"
proof (induction n)
  case 0
  then show ?case by (auto simp add: stores_0)
next
  case (Suc n)
  then show ?case
    by (auto simp add: stores_Suc length_stores nth_list_update)
qed

lemma stores_frame:
  "\<forall>k < n. m \<noteq> j + k \<and> m \<noteq> j + w4 + k \<Longrightarrow> stores n j w4 p d ! m = d ! m"
proof (induction n)
  case 0
  then show ?case by (simp add: stores_0)
next
  case (Suc n)
  then have "m \<noteq> j + n" "m \<noteq> j + w4 + n" "stores n j w4 p d ! m = d ! m"
    by simp_all
  then show ?case by (simp add: stores_Suc)
qed

lemma written_ranges: "written j w = {j ..< j + 8} \<union> {j + w * 4 ..< j + w * 4 + 8}"
proof (rule set_eqI)
  fix m
  show "m \<in> written j w \<longleftrightarrow> m \<in> {j ..< j + 8} \<union> {j + w * 4 ..< j + w * 4 + 8}"
  proof
    assume "m \<in> written j w"
    then obtain k where "k < 8" "m = j + k \<or> m = j + w * 4 + k"
      by (auto simp add: written_def)
    then show "m \<in> {j ..< j + 8} \<union> {j + w * 4 ..< j + w * 4 + 8}" by auto
  next
    assume "m \<in> {j ..< j + 8} \<union> {j + w * 4 ..< j + w * 4 + 8}"
    then consider "j \<le> m" "m < j + 8" | "j + w * 4 \<le> m" "m < j + w * 4 + 8" by auto
    then show "m \<in> written j w"
    proof cases
      case 1
      then have "m - j \<in> {0..<8}" "m = j + (m - j)" by simp_all
      then show ?thesis unfolding written_def by blast
    next
      case 2
      then have "m - (j + w * 4) \<in> {0..<8}" "m = j + w * 4 + (m - (j + w * 4))" by simp_all
      then show ?thesis unfolding written_def by blast
    qed
  qed
qed

lemma store_block_frame:
  assumes "m \<notin> written j w"
  shows "fst (store_block j w p1 p2 (d1, d2)) ! m = d1 ! m"
    and "snd (store_block j w p1 p2 (d1, d2)) ! m = d2 ! m"
proof -
  have "\<forall>k < 8. m \<noteq> j + k \<and> m \<noteq> j + w * 4 + k"
    using assms by (auto simp add: written_def)
  then show "fst (store_block j w p1 p2 (d1, d2)) ! m = d1 ! m"
    and "snd (store_block j w p1 p2 (d1, d2)) ! m = d2 ! m"
    by (simp_all add: store_block_stores stores_frame)
qed

lemma length_region: "j + w4 + 8 \<le> length d \<Longrightarrow> length (region j w4 d) = 16"
  by (simp add: region_def)

lemma region_nth:
  "j + w4 + 8 \<le> length d \<Longrightarrow> i < 16 \<Longrightarrow>
   region j w4 d ! i = (if i < 8 then d ! (j + i) else d ! (j + w4 + (i - 8)))"
  by (simp add: region_def nth_append)

lemma second_row:
  assumes "\<not> i < 8" "i < (16::nat)"
  obtains i' where "i = i' + 8" "i' < 8"
proof
  show "i = (i - 8) + 8" "i - 8 < 8" using assms by simp_all
qed

lemma region_stores_same:
  assumes "8 \<le> w4" "j + w4 + 8 \<le> length d" "length p = 16"
  shows "region j w4 (stores 8 j w4 p d) = p"
proof (rule nth_equalityI)
  show "length (region j w4 (stores 8 j w4 p d)) = length p"
    using assms by (simp add: length_region length_stores)
next
  fix i assume "i < length (region j w4 (stores 8 j w4 p d))"
  then have i: "i < 16" using assms by (simp add: length_region length_stores)
  show "region j w4 (stores 8 j w4 p d) ! i = p ! i"
  proof (cases "i < 8")
    case True
    then show ?thesis using assms i
      by (simp add: region_nth length_stores stores_nth)
  next
    case False
    then obtain i' where i': "i = i' + 8" "i' < 8"
      using i by (rule second_row)
    show ?thesis using assms unfolding i'(1) using i'(2)
      by (simp add: region_nth length_stores stores_nth)
  qed
qed

lemma region_stores_other:
  assumes "8 \<le> w4" "j + w4 + 8 \<le> length d" "j' + w4 + 8 \<le> length d"
    and "(j' + 8 \<le> j \<and> j + 8 \<le> j' + w4 \<and> j' + w4 + 8 \<le> j + w4) \<or> j' + w4 + 8 \<le> j"
  shows "region j' w4 (stores 8 j w4 p d) = region j' w4 d"
proof (rule nth_equalityI)
  show "length (region j' w4 (stores 8 j w4 p d)) = length (region j' w4 d)"
    using assms by (simp add: length_region length_stores)
next
  fix i assume "i < length (region j' w4 (stores 8 j w4 p d))"
  then have i: "i < 16" using assms by (simp add: length_region length_stores)
  show "region j' w4 (stores 8 j w4 p d) ! i = region j' w4 d ! i"
  proof (cases "i < 8")
    case True
    then show ?thesis using assms i
      by (auto simp add: region_nth length_stores stores_nth)
  next
    case False
    then obtain i' where i': "i = i' + 8" "i' < 8"
      using i by (rule second_row)
    show ?thesis using assms unfolding i'(1) using i'(2)
      by (auto simp add: region_nth length_stores stores_nth)
  qed
qed

section \<open>The block offset\<close>

lemma offset_div_mod:
  assumes "0 < sw"
  shows "offset sw (sw * 2) (4 * q) = 16 * (sw * (q div sw)) + 8 * (q mod sw)"
proof -
  have d: "(4 * q) div (sw * 4) = q div sw"
    by (simp add: mult.commute)
  have "8 * q = 8 * (sw * (q div sw) + q mod sw)"
    by simp
  then have "8 * q = 8 * (sw * (q div sw)) + 8 * (q mod sw)"
    by (simp only: distrib_left)
  then show ?thesis
    unfolding offset_def ystride_def d by (simp add: algebra_simps)
qed

lemma offset_xy:
  assumes "0 < sw" "x < sw"
  shows "offset sw (sw * 2) (4 * (y * sw + x)) = 4 * ((2 * y) * (2 * sw) + 2 * x)"
proof -
  have "(y * sw + x) div sw = y" "(y * sw + x) mod sw = x"
    using assms by simp_all
  then show ?thesis
    unfolding offset_div_mod [OF assms(1)] by (simp add: algebra_simps)
qed

lemma offset_bound:
  assumes "0 < sw" "p < sw * sh"
  shows "offset sw (sw * 2) (4 * p) + sw * 2 * 4 + 8 \<le> 16 * (sw * sh)"
proof -
  have x: "p mod sw < sw" using assms by simp
  have "p div sw < sh" using assms
    by (simp add: less_mult_imp_div_less mult.commute)
  then have "Suc (p div sw) \<le> sh" by simp
  then have "sw * Suc (p div sw) \<le> sw * sh" by (rule mult_le_mono2)
  then have "sw * (p div sw) + sw \<le> sw * sh" by simp
  then show ?thesis
    using x unfolding offset_div_mod [OF assms(1)] by linarith
qed

lemma offset_sep:
  assumes "0 < sw" "q < p"
  shows "(offset sw (sw * 2) (4 * q) + 8 \<le> offset sw (sw * 2) (4 * p) \<and>
          offset sw (sw * 2) (4 * p) + 8 \<le> offset sw (sw * 2) (4 * q) + sw * 2 * 4 \<and>
          offset sw (sw * 2) (4 * q) + sw * 2 * 4 + 8 \<le> offset sw (sw * 2) (4 * p) + sw * 2 * 4)
         \<or> offset sw (sw * 2) (4 * q) + sw * 2 * 4 + 8 \<le> offset sw (sw * 2) (4 * p)"
proof -
  have xq: "q mod sw < sw" and xp: "p mod sw < sw" using assms by simp_all
  have le: "q div sw \<le> p div sw" using assms by (simp add: div_le_mono)
  show ?thesis
  proof (cases "q div sw = p div sw")
    case True
    have "q mod sw < p mod sw"
    proof -
      have q: "sw * (q div sw) + q mod sw = q" and p: "sw * (p div sw) + p mod sw = p"
        by simp_all
      from True have "sw * (q div sw) = sw * (p div sw)" by simp
      with q p assms(2) show ?thesis by linarith
    qed
    then show ?thesis
      using xq xp True unfolding offset_div_mod [OF assms(1)] by simp
  next
    case False
    then have "Suc (q div sw) \<le> p div sw" using le by simp
    then have "sw * Suc (q div sw) \<le> sw * (p div sw)" by (rule mult_le_mono2)
    then have "sw * (q div sw) + sw \<le> sw * (p div sw)" by simp
    then show ?thesis
      using xq xp unfolding offset_div_mod [OF assms(1)] by linarith
  qed
qed

lemma written_pixels:
  "written (4 * ((2 * y) * (2 * sw) + 2 * x)) (sw * 2) =
     pixel_bytes (2 * sw) (2 * x) (2 * y) \<union> pixel_bytes (2 * sw) (2 * x + 1) (2 * y) \<union>
     pixel_bytes (2 * sw) (2 * x) (2 * y + 1) \<union> pixel_bytes (2 * sw) (2 * x + 1) (2 * y + 1)"
proof -
  have a: "4 * (2 * y * (2 * sw) + (2 * x + 1)) = 4 * (2 * y * (2 * sw) + 2 * x) + 4"
    by simp
  have b: "4 * ((2 * y + 1) * (2 * sw) + 2 * x) = 4 * (2 * y * (2 * sw) + 2 * x) + sw * 2 * 4"
    by (simp add: algebra_simps)
  have c: "4 * ((2 * y + 1) * (2 * sw) + (2 * x + 1)) =
      4 * (2 * y * (2 * sw) + 2 * x) + sw * 2 * 4 + 4"
    by (simp add: algebra_simps)
  show ?thesis
    unfolding written_ranges pixel_bytes_def a b c by auto
qed

lemma written_disjoint:
  assumes "0 < sw" "q < p"
  shows "written (offset sw (sw * 2) (4 * q)) (sw * 2) \<inter>
         written (offset sw (sw * 2) (4 * p)) (sw * 2) = {}"
  using offset_sep [OF assms] unfolding written_ranges by auto

lemma pixel_number:
  assumes "x < sw" "y < sh"
  shows "y * sw + x < sw * (sh::nat)"
proof -
  have "y * sw + x < y * sw + sw" using assms by simp
  also have "\<dots> = Suc y * sw" by simp
  also have "\<dots> \<le> sh * sw" using assms by (intro mult_le_mono1) simp
  finally show ?thesis by (simp add: mult.commute)
qed

lemma pixel_number_inj:
  assumes "x < sw" "x' < sw" "y * sw + x = y' * sw + (x'::nat)"
  shows "x = x' \<and> y = y'"
proof -
  have "(y * sw + x) div sw = y" "(y' * sw + x') div sw = y'"
    "(y * sw + x) mod sw = x" "(y' * sw + x') mod sw = x'"
    using assms(1,2) by simp_all
  then show ?thesis using assms(3) by metis
qed

section \<open>The body of the outer loop\<close>

lemma length_blackPairs: "length blackPairs = 6"
  by (simp add: blackPairs_def)

lemma length_patterns: "length patterns = 6"
  by (simp add: patterns_def)

lemma shift_le: "n < 2 ^ 53 * 2 ^ k \<Longrightarrow> shift n \<le> k"
proof (induction k arbitrary: n)
  case 0
  then show ?case by (subst shift.simps) simp
next
  case (Suc k)
  then have "n div 2 < 2 ^ 53 * 2 ^ k" by simp
  then have "shift (n div 2) \<le> k" by (rule Suc.IH)
  then show ?case by (subst shift.simps) simp
qed

lemma shift_pos: "0 < shift n \<Longrightarrow> 2 ^ 53 \<le> n"
  by (subst (asm) shift.simps) (simp split: if_splits)

lemma shift_0: "n < 2 ^ 53 \<Longrightarrow> shift n = 0"
  by (subst shift.simps) simp

lemma div_below:
  fixes a b :: int
  assumes "0 < b" "a < c * b"
  shows "a div b < c"
proof (rule ccontr)
  assume "\<not> a div b < c"
  then have "c \<le> a div b" by simp
  then have "c * b \<le> a div b * b" using assms(1) by (simp add: mult_right_mono)
  moreover have "a div b * b + a mod b = a" by simp
  moreover have "0 \<le> a mod b" using assms(1) by simp
  ultimately show False using assms(2) by linarith
qed

lemma round_core:
  fixes m P Q :: int
  assumes m: "0 \<le> m" "m < P * Q" and P: "0 < P" "P \<le> 8" and Q: "0 < Q"
    and q': "q' = (if P < 2 * ((m * 6) mod P) \<or> (2 * ((m * 6) mod P) = P \<and> odd ((m * 6) div P))
              then (m * 6) div P + 1 else (m * 6) div P)"
  shows "0 \<le> q' div Q \<and> q' div Q < 6"
proof -
  let ?q = "(m * 6) div P" and ?r = "(m * 6) mod P"
  have n: "?q * P + ?r = m * 6" by simp
  have r: "0 \<le> ?r" "?r < P" using P by simp_all
  have q0: "0 \<le> ?q" using m P by (simp add: pos_imp_zdiv_nonneg_iff)
  have q'0: "0 \<le> q'" using q0 by (simp add: q')
  have PQ: "m + 1 \<le> P * Q" using m by simp
  have "q' * P < 6 * Q * P"
  proof (cases "P < 2 * ?r \<or> (2 * ?r = P \<and> odd ?q)")
    case True
    then have "q' = ?q + 1" unfolding q' by (simp only: if_True)
    then have "q' * P = ?q * P + P" by (simp add: algebra_simps)
    moreover have "P \<le> 2 * ?r" using True by auto
    ultimately have "2 * (q' * P) \<le> 12 * m + P" using n by linarith
    also have "\<dots> < 12 * (m + 1)" using P by simp
    also have "\<dots> \<le> 12 * (P * Q)" using PQ by simp
    finally show ?thesis by (simp add: algebra_simps)
  next
    case False
    then have "q' = ?q" unfolding q' by (simp only: if_False)
    then have "q' * P = ?q * P" by simp
    then have "q' * P \<le> m * 6" using n r by linarith
    also have "\<dots> < 6 * (P * Q)" using m by simp
    finally show ?thesis by (simp add: algebra_simps)
  qed
  then have "q' < 6 * Q" using P by simp
  then have "q' div Q < 6" using Q by (intro div_below) simp_all
  moreover have "0 \<le> q' div Q" using q'0 Q by (simp add: pos_imp_zdiv_nonneg_iff)
  ultimately show ?thesis by simp
qed

lemma randInt_range:
  assumes "is_double u" "lt_one u"
  shows "\<exists>r. randInt u 6 = Some r \<and> 0 \<le> r \<and> r < 6"
proof -
  obtain m e where u: "u = (m, e)" by (cases u)
  have m: "0 \<le> m" "m < 2 ^ 53" using assms(1) by (simp_all add: u is_double_def)
  show ?thesis
  proof (cases "0 \<le> e")
    case True
    then have "m * 2 ^ nat e < 1" using assms(2) by (simp add: u lt_one_def)
    moreover have "m * 1 \<le> m * 2 ^ nat e" using m(1) by (intro mult_left_mono) simp_all
    ultimately have "m = 0" using m(1) by simp
    then show ?thesis
      using True by (simp add: u randInt_def times_def floor_double_def shift_0)
  next
    case False
    define E where "E = nat (- e)"
    define s where "s = shift (m * 6)"
    define q' where "q' = (if 2 ^ s < 2 * ((m * 6) mod 2 ^ s) \<or>
        (2 * ((m * 6) mod 2 ^ s) = 2 ^ s \<and> odd ((m * 6) div 2 ^ s))
      then (m * 6) div 2 ^ s + 1 else (m * 6) div 2 ^ s)"
    have mE: "m < 2 ^ E" using False assms(2) by (simp add: u lt_one_def E_def)
    have e: "e = - int E" using False by (simp add: E_def)
    have "m * 6 < 2 ^ 53 * 2 ^ 3" using m(2) by simp
    then have s3: "s \<le> 3" unfolding s_def by (rule shift_le)
    have sE: "s < E \<or> s = 0"
    proof (cases "s = 0")
      case True
      then show ?thesis by simp
    next
      case False
      then have "2 ^ 53 \<le> m * 6" unfolding s_def by (intro shift_pos) simp
      then have "(2::int) ^ 50 \<le> m" by simp
      then have "(2::int) ^ 50 < 2 ^ E" using mE by simp
      then have "50 < E" by (simp only: power_strict_increasing_iff) 
      then show ?thesis using s3 by simp
    qed
    have E0: "0 < E" using False by (simp add: E_def)
    then have x: "\<not> 0 \<le> e + int s" "nat (- (e + int s)) = E - s"
      using sE by (auto simp add: e)
    have PQ: "(2::int) ^ s * 2 ^ (E - s) = 2 ^ E"
      using sE E0 by (auto simp add: power_add [symmetric])
    have P8: "(2::int) ^ s \<le> 8"
    proof -
      have "(2::int) ^ s \<le> 2 ^ 3" using s3 by (intro power_increasing) simp_all
      then show ?thesis by simp
    qed
    have bounds: "0 \<le> q' div 2 ^ (E - s) \<and> q' div 2 ^ (E - s) < 6"
      using m(1) mE by (intro round_core [where P = "2 ^ s" and m = m])
        (simp_all add: PQ P8 q'_def)
    have "randInt u 6 = Some (q' div 2 ^ (E - s))"
      using x by (simp add: u randInt_def times_def floor_double_def Let_def
          s_def [symmetric] q'_def)
    then show ?thesis using bounds by simp
  qed
qed

lemma randInt_cases:
  assumes "is_double u" "lt_one u"
  obtains "randInt u 6 = Some 0" | "randInt u 6 = Some 1" | "randInt u 6 = Some 2"
    | "randInt u 6 = Some 3" | "randInt u 6 = Some 4" | "randInt u 6 = Some 5"
proof -
  obtain r where "randInt u 6 = Some r" "0 \<le> r" "r < 6"
    using randInt_range [OF assms] by blast
  moreover from this have "r = 0 \<or> r = 1 \<or> r = 2 \<or> r = 3 \<or> r = 4 \<or> r = 5"
    by arith
  ultimately show ?thesis using that by blast
qed

lemma nat_lt6: "0 \<le> r \<Longrightarrow> r < 6 \<Longrightarrow> nat r < 6"
  by simp

lemma body_step:
  assumes "is_double (rng n)" "lt_one (rng n)"
  shows "body rng src sw w i (d1, d2, n) =
     Inr (stores 8 (offset sw w i) (w * 4) (fst (pick (rng n) (isBlack src i))) d1,
          stores 8 (offset sw w i) (w * 4) (snd (pick (rng n) (isBlack src i))) d2,
          Suc n)"
  unfolding body_def length_blackPairs length_patterns
  using assms
  by (rule randInt_cases)
    (simp_all add: pick_def index_def blackPairs_def patterns_def store_block_stores Let_def)

lemma length_pick:
  assumes "is_double u" "lt_one u"
  shows "length (fst (pick u b)) = 16 \<and> length (snd (pick u b)) = 16"
  using assms
  by (rule randInt_cases) (simp_all add: pick_def blackPairs_def patterns_def)

section \<open>The outer loop\<close>

lemma loop_done: "length src \<le> i \<Longrightarrow> loop rng src sw w i st = Inr st"
  by (subst loop.simps) simp

lemma loop_next:
  "i < length src \<Longrightarrow> body rng src sw w i st = Inr st' \<Longrightarrow>
   loop rng src sw w i st = loop rng src sw w (i + 4) st'"
  by (subst loop.simps) simp

lemma loop_correct:
  assumes sw: "0 < sw" and len: "length src = 4 * (sw * sh)"
    and draws: "\<forall>k < sw * sh. is_double (rng k) \<and> lt_one (rng k)"
  shows "p \<le> sw * sh \<Longrightarrow> length d1 = 16 * (sw * sh) \<Longrightarrow> length d2 = 16 * (sw * sh) \<Longrightarrow>
    \<exists>e1 e2. loop rng src sw (sw * 2) (4 * p) (d1, d2, p) = Inr (e1, e2, sw * sh) \<and>
      length e1 = 16 * (sw * sh) \<and> length e2 = 16 * (sw * sh) \<and>
      (\<forall>q < sw * sh.
         region (offset sw (sw * 2) (4 * q)) (sw * 2 * 4) e1 =
           (if q < p then region (offset sw (sw * 2) (4 * q)) (sw * 2 * 4) d1
            else fst (pick (rng q) (isBlack src (4 * q)))) \<and>
         region (offset sw (sw * 2) (4 * q)) (sw * 2 * 4) e2 =
           (if q < p then region (offset sw (sw * 2) (4 * q)) (sw * 2 * 4) d2
            else snd (pick (rng q) (isBlack src (4 * q)))))"
proof (induction "sw * sh - p" arbitrary: p d1 d2)
  case 0
  then have "p = sw * sh" by simp
  then show ?case using 0 len by (simp add: loop_done)
next
  case (Suc n)
  let ?w4 = "sw * 2 * 4"
  let ?off = "\<lambda>q. offset sw (sw * 2) (4 * q)"
  let ?pk = "pick (rng p) (isBlack src (4 * p))"
  let ?d1 = "stores 8 (?off p) ?w4 (fst ?pk) d1"
  let ?d2 = "stores 8 (?off p) ?w4 (snd ?pk) d2"
  from Suc.hyps(2) have p: "p < sw * sh" by simp
  with draws have u: "is_double (rng p)" "lt_one (rng p)" by simp_all
  have w4: "8 \<le> ?w4" using sw by simp
  have bp: "?off p + ?w4 + 8 \<le> 16 * (sw * sh)"
    using offset_bound [OF sw p] .
  have step: "loop rng src sw (sw * 2) (4 * p) (d1, d2, p) =
      loop rng src sw (sw * 2) (4 * Suc p) (?d1, ?d2, Suc p)"
  proof -
    have e: "4 * Suc p = 4 * p + 4" by simp
    show ?thesis unfolding e
      by (rule loop_next [OF _ body_step [of rng p, OF u]]) (use p len in simp)
  qed
  have "n = sw * sh - Suc p" using Suc.hyps(2) by simp
  moreover have "Suc p \<le> sw * sh" using p by simp
  moreover have "length ?d1 = 16 * (sw * sh)" "length ?d2 = 16 * (sw * sh)"
    using Suc.prems by (simp_all add: length_stores)
  ultimately obtain e1 e2 where
    res: "loop rng src sw (sw * 2) (4 * Suc p) (?d1, ?d2, Suc p) = Inr (e1, e2, sw * sh)"
    and le: "length e1 = 16 * (sw * sh)" "length e2 = 16 * (sw * sh)"
    and reg: "\<forall>q < sw * sh.
         region (?off q) ?w4 e1 =
           (if q < Suc p then region (?off q) ?w4 ?d1
            else fst (pick (rng q) (isBlack src (4 * q)))) \<and>
         region (?off q) ?w4 e2 =
           (if q < Suc p then region (?off q) ?w4 ?d2
            else snd (pick (rng q) (isBlack src (4 * q))))"
    using Suc.hyps(1) [of "Suc p" ?d1 ?d2] by blast
  have same1: "region (?off p) ?w4 ?d1 = fst ?pk"
    using w4 bp Suc.prems length_pick [OF u] by (intro region_stores_same) simp_all
  have same2: "region (?off p) ?w4 ?d2 = snd ?pk"
    using w4 bp Suc.prems length_pick [OF u] by (intro region_stores_same) simp_all
  have other: "region (?off q) ?w4 (stores 8 (?off p) ?w4 pt d) = region (?off q) ?w4 d"
    if "q < p" "length d = 16 * (sw * sh)" for q pt d
  proof -
    have q: "q < sw * sh" using that p by simp
    have bq: "?off q + ?w4 + 8 \<le> 16 * (sw * sh)"
      using offset_bound [OF sw q] .
    show ?thesis
      using w4 bp bq that(2) offset_sep [OF sw that(1)]
      by (intro region_stores_other) simp_all
  qed
  have "region (?off q) ?w4 e1 =
           (if q < p then region (?off q) ?w4 d1
            else fst (pick (rng q) (isBlack src (4 * q)))) \<and>
        region (?off q) ?w4 e2 =
           (if q < p then region (?off q) ?w4 d2
            else snd (pick (rng q) (isBlack src (4 * q))))"
    if q: "q < sw * sh" for q
  proof -
    consider "q < p" | "q = p" | "p < q" by linarith
    then show ?thesis
    proof cases
      case 1
      then show ?thesis using reg q other [OF 1] Suc.prems by simp
    next
      case 2
      then show ?thesis using reg q same1 same2 by simp
    next
      case 3
      then show ?thesis using reg q by simp
    qed
  qed
  then show ?case using step res le by simp
qed

section \<open>The shares, block by block\<close>

lemma take8_drop: "take 8 (drop j d) = take 4 (drop j d) @ take 4 (drop (j + 4) d)"
proof -
  have "take (4 + 4) (drop j d) = take 4 (drop j d) @ take 4 (drop 4 (drop j d))"
    by (rule take_add)
  then show ?thesis by (simp add: add.commute)
qed

lemma block_region:
  assumes "0 < sw" "x < sw" "width img = 2 * sw"
  shows "block img x y = region (offset sw (sw * 2) (4 * (y * sw + x))) (sw * 2 * 4) (data img)"
proof -
  have a: "4 * (2 * y * (2 * sw) + (2 * x + 1)) = 4 * (2 * y * (2 * sw) + 2 * x) + 4"
    by simp
  have b: "4 * ((2 * y + 1) * (2 * sw) + 2 * x) = 4 * (2 * y * (2 * sw) + 2 * x) + sw * 2 * 4"
    by (simp add: algebra_simps)
  have c: "4 * ((2 * y + 1) * (2 * sw) + (2 * x + 1)) =
      4 * (2 * y * (2 * sw) + 2 * x) + sw * 2 * 4 + 4"
    by (simp add: algebra_simps)
  show ?thesis
    unfolding block_def pixel_def region_def take8_drop offset_xy [OF assms(1,2)] assms(3) a b c
    by simp
qed

lemma take4_drop_nth:
  assumes "k + 4 \<le> length d"
  shows "take 4 (drop k d) = [d ! k, d ! (k + 1), d ! (k + 2), d ! (k + 3)]"
proof (rule nth_equalityI)
  show "length (take 4 (drop k d)) = length [d ! k, d ! (k + 1), d ! (k + 2), d ! (k + 3)]"
    using assms by simp
next
  fix i assume "i < length (take 4 (drop k d))"
  then have "i < 4" by simp
  then consider "i = 0" | "i = 1" | "i = 2" | "i = 3" by linarith
  then show "take 4 (drop k d) ! i = [d ! k, d ! (k + 1), d ! (k + 2), d ! (k + 3)] ! i"
    using assms by cases simp_all
qed

lemma index_int: "index xs (int i) = (if i < length xs then Some (xs ! i) else None)"
  by (simp add: index_def)

lemma isBlack_take:
  assumes "k + 4 \<le> length d"
  shows "isBlack d k \<longleftrightarrow> take 4 (drop k d) = [0, 0, 0, 255]"
  unfolding take4_drop_nth [OF assms] isBlack_def index_int using assms by auto

lemma isBlack_channels:
  assumes "i + 4 \<le> length d"
  shows "isBlack d i \<longleftrightarrow> d ! i = 0 \<and> d ! (i + 1) = 0 \<and> d ! (i + 2) = 0 \<and> d ! (i + 3) = 255"
  unfolding isBlack_def index_int using assms by simp

lemma isBlack_pixel:
  assumes "wf_image src" "x < width src" "y < height src"
  shows "isBlack (data src) (4 * (y * width src + x)) \<longleftrightarrow> pixel src x y = [0, 0, 0, 255]"
    and "4 * (y * width src + x) + 4 \<le> length (data src)"
proof -
  have "y * width src + x < width src * height src"
    using assms(2,3) by (rule pixel_number)
  then show len: "4 * (y * width src + x) + 4 \<le> length (data src)"
    using assms(1) by (simp add: wf_image_def)
  then show "isBlack (data src) (4 * (y * width src + x)) \<longleftrightarrow> pixel src x y = [0, 0, 0, 255]"
    unfolding pixel_def by (rule isBlack_take)
qed

lemma createImageData_ok:
  "0 < w \<Longrightarrow> 0 < h \<Longrightarrow>
   createImageData w h = Inr \<lparr>width = w, height = h, data = replicate (4 * w * h) 0\<rparr>"
  by (simp add: createImageData_def)

lemma draw_in_range:
  assumes "unit_draws rng (sw * sh)" "x < sw" "y < sh"
  shows "is_double (rng (y * sw + x))" "lt_one (rng (y * sw + x))"
  using assms(1) pixel_number [OF assms(2,3)] by (simp_all add: unit_draws_def)

lemma shareImage_blocks:
  assumes wf: "wf_image src" and draws: "unit_draws rng (width src * height src)"
  shows "\<exists>s1 s2. shareImage rng src = Inr (s1, s2) \<and>
     width s1 = 2 * width src \<and> height s1 = 2 * height src \<and>
     length (data s1) = 4 * (width s1 * height s1) \<and>
     width s2 = 2 * width src \<and> height s2 = 2 * height src \<and>
     length (data s2) = 4 * (width s2 * height s2) \<and>
     (\<forall>x < width src. \<forall>y < height src.
        (block s1 x y, block s2 x y) =
          pick (rng (y * width src + x)) (pixel src x y = [0, 0, 0, 255]))"
proof -
  let ?sw = "width src" and ?sh = "height src"
  let ?z = "replicate (4 * (?sw * 2) * (?sh * 2)) (0 :: byte)"
  have sw: "0 < ?sw" and sh: "0 < ?sh" and len: "length (data src) = 4 * (?sw * ?sh)"
    using wf by (simp_all add: wf_image_def)
  have dr: "\<forall>k < ?sw * ?sh. is_double (rng k) \<and> lt_one (rng k)"
    using draws by (simp add: unit_draws_def)
  have lz: "length ?z = 16 * (?sw * ?sh)" by simp
  obtain e1 e2 where
    res: "loop rng (data src) ?sw (?sw * 2) (4 * 0) (?z, ?z, 0) = Inr (e1, e2, ?sw * ?sh)"
    and l1: "length e1 = 16 * (?sw * ?sh)" and l2: "length e2 = 16 * (?sw * ?sh)"
    and reg: "\<forall>q < ?sw * ?sh.
       region (offset ?sw (?sw * 2) (4 * q)) (?sw * 2 * 4) e1 =
         (if q < 0 then region (offset ?sw (?sw * 2) (4 * q)) (?sw * 2 * 4) ?z
          else fst (pick (rng q) (isBlack (data src) (4 * q)))) \<and>
       region (offset ?sw (?sw * 2) (4 * q)) (?sw * 2 * 4) e2 =
         (if q < 0 then region (offset ?sw (?sw * 2) (4 * q)) (?sw * 2 * 4) ?z
          else snd (pick (rng q) (isBlack (data src) (4 * q))))"
    using loop_correct [OF sw len dr _ lz lz, of 0] by blast
  let ?s1 = "\<lparr>width = ?sw * 2, height = ?sh * 2, data = e1\<rparr>"
  let ?s2 = "\<lparr>width = ?sw * 2, height = ?sh * 2, data = e2\<rparr>"
  have run: "shareImage rng src = Inr (?s1, ?s2)"
    using sw sh res by (simp add: shareImage_def createImageData_ok Let_def)
  have blocks: "(block ?s1 x y, block ?s2 x y) =
      pick (rng (y * ?sw + x)) (pixel src x y = [0, 0, 0, 255])"
    if x: "x < ?sw" and y: "y < ?sh" for x y
  proof -
    have "y * ?sw + x < y * ?sw + ?sw" using x by simp
    also have "\<dots> = Suc y * ?sw" by simp
    also have "\<dots> \<le> ?sh * ?sw" using y by (intro mult_le_mono1) simp
    finally have q: "y * ?sw + x < ?sw * ?sh" by (simp add: mult.commute)
    then have "4 * (y * ?sw + x) + 4 \<le> length (data src)" using len by simp
    then have blk: "isBlack (data src) (4 * (y * ?sw + x)) \<longleftrightarrow> pixel src x y = [0, 0, 0, 255]"
      unfolding pixel_def by (rule isBlack_take)
    have "block ?s1 x y = region (offset ?sw (?sw * 2) (4 * (y * ?sw + x))) (?sw * 2 * 4) e1"
      "block ?s2 x y = region (offset ?sw (?sw * 2) (4 * (y * ?sw + x))) (?sw * 2 * 4) e2"
      using block_region [OF sw x, of ?s1 y] block_region [OF sw x, of ?s2 y] by simp_all
    then show ?thesis
      using reg [THEN spec, of "y * ?sw + x"] q blk by (simp add: prod_eq_iff)
  qed
  show ?thesis
    using run l1 l2 blocks by (intro exI [of _ ?s1] exI [of _ ?s2]) simp
qed

lemma shareImage_branches:
  assumes wf: "wf_image src" and draws: "unit_draws rng (width src * height src)"
  shows "\<exists>s1 s2. shareImage rng src = Inr (s1, s2) \<and>
     (\<forall>x < width src. \<forall>y < height src.
        (\<exists>r. randInt (rng (y * width src + x)) 6 = Some r \<and> 0 \<le> r \<and> r < 6 \<and>
           (pixel src x y = [0, 0, 0, 255] \<longrightarrow>
              block s1 x y = patterns ! fst (blackPairs ! nat r) \<and>
              block s2 x y = patterns ! snd (blackPairs ! nat r)) \<and>
           (pixel src x y \<noteq> [0, 0, 0, 255] \<longrightarrow>
              block s1 x y = patterns ! nat r \<and>
              block s2 x y = patterns ! nat r)))"
proof -
  obtain s1 s2 where run: "shareImage rng src = Inr (s1, s2)"
    and blocks: "\<And>x y. x < width src \<Longrightarrow> y < height src \<Longrightarrow>
        (block s1 x y, block s2 x y) =
          pick (rng (y * width src + x)) (pixel src x y = [0, 0, 0, 255])"
    using shareImage_blocks [OF assms] by blast
  have "\<exists>r. randInt (rng (y * width src + x)) 6 = Some r \<and> 0 \<le> r \<and> r < 6 \<and>
           (pixel src x y = [0, 0, 0, 255] \<longrightarrow>
              block s1 x y = patterns ! fst (blackPairs ! nat r) \<and>
              block s2 x y = patterns ! snd (blackPairs ! nat r)) \<and>
           (pixel src x y \<noteq> [0, 0, 0, 255] \<longrightarrow>
              block s1 x y = patterns ! nat r \<and>
              block s2 x y = patterns ! nat r)"
    if x: "x < width src" and y: "y < height src" for x y
  proof -
    have u: "is_double (rng (y * width src + x))" "lt_one (rng (y * width src + x))"
      by (rule draw_in_range [OF draws x y])+
    obtain r where r: "randInt (rng (y * width src + x)) 6 = Some r" "0 \<le> r" "r < 6"
      using randInt_range [OF u] by blast
    show ?thesis
      using r blocks [OF x y] by (auto simp add: pick_def Let_def)
  qed
  with run show ?thesis by blast
qed

lemma subpixels_block:
  assumes "width img = 2 * sw" "x < sw" "y < sh" "length (data img) = 4 * (width img * (2 * sh))"
  shows "subpixels (block img x y) =
    [pixel img (2 * x) (2 * y), pixel img (2 * x + 1) (2 * y),
     pixel img (2 * x) (2 * y + 1), pixel img (2 * x + 1) (2 * y + 1)]"
proof -
  have len: "length (pixel img X Y) = 4" if "X < 2 * sw" "Y < 2 * sh" for X Y
  proof -
    have "Y * (2 * sw) + X < (2 * sw) * (2 * sh)"
      using that by (rule pixel_number)
    then show ?thesis using assms(1,4) by (simp add: pixel_def)
  qed
  have "length (pixel img (2 * x) (2 * y)) = 4" "length (pixel img (2 * x + 1) (2 * y)) = 4"
    "length (pixel img (2 * x) (2 * y + 1)) = 4" "length (pixel img (2 * x + 1) (2 * y + 1)) = 4"
    using assms(2,3) by (simp_all add: len)
  then show ?thesis
    by (simp add: subpixels_def block_def)
qed

lemma shareImage_placement:
  assumes wf: "wf_image src" and draws: "unit_draws rng (width src * height src)"
    and x: "x < width src" and y: "y < height src"
  shows "\<exists>s1 s2 q1 q2. shareImage rng src = Inr (s1, s2) \<and>
     length q1 = 16 \<and> length q2 = 16 \<and>
     (\<forall>e1 e2.
        body rng (data src) (width src) (width src * 2) (4 * (y * width src + x))
            (e1, e2, y * width src + x) =
          Inr (fst (store_block (offset (width src) (width src * 2) (4 * (y * width src + x)))
                     (width src * 2) q1 q2 (e1, e2)),
               snd (store_block (offset (width src) (width src * 2) (4 * (y * width src + x)))
                     (width src * 2) q1 q2 (e1, e2)),
               Suc (y * width src + x))) \<and>
     [pixel s1 (2 * x) (2 * y), pixel s1 (2 * x + 1) (2 * y),
      pixel s1 (2 * x) (2 * y + 1), pixel s1 (2 * x + 1) (2 * y + 1)] = subpixels q1 \<and>
     [pixel s2 (2 * x) (2 * y), pixel s2 (2 * x + 1) (2 * y),
      pixel s2 (2 * x) (2 * y + 1), pixel s2 (2 * x + 1) (2 * y + 1)] = subpixels q2"
proof -
  let ?n = "y * width src + x"
  let ?b = "isBlack (data src) (4 * ?n)"
  let ?q1 = "fst (pick (rng ?n) ?b)" and ?q2 = "snd (pick (rng ?n) ?b)"
  obtain s1 s2 where run: "shareImage rng src = Inr (s1, s2)"
    and w1: "width s1 = 2 * width src" and l1: "length (data s1) = 4 * (width s1 * height s1)"
    and h1: "height s1 = 2 * height src"
    and w2: "width s2 = 2 * width src" and l2: "length (data s2) = 4 * (width s2 * height s2)"
    and h2: "height s2 = 2 * height src"
    and blocks: "\<forall>x < width src. \<forall>y < height src.
        (block s1 x y, block s2 x y) =
          pick (rng (y * width src + x)) (pixel src x y = [0, 0, 0, 255])"
    using shareImage_blocks [OF wf draws] by blast
  have u: "is_double (rng ?n)" "lt_one (rng ?n)"
    by (rule draw_in_range [OF draws x y])+
  have b: "?b \<longleftrightarrow> pixel src x y = [0, 0, 0, 255]"
    by (rule isBlack_pixel [OF wf x y])
  have eq: "block s1 x y = ?q1" "block s2 x y = ?q2"
    using blocks [rule_format, OF x y] b by (simp_all add: prod_eq_iff)
  have len: "length ?q1 = 16" "length ?q2 = 16"
    using length_pick [OF u] by simp_all
  have bd: "body rng (data src) (width src) (width src * 2) (4 * ?n) (e1, e2, ?n) =
      Inr (fst (store_block (offset (width src) (width src * 2) (4 * ?n)) (width src * 2)
                 ?q1 ?q2 (e1, e2)),
           snd (store_block (offset (width src) (width src * 2) (4 * ?n)) (width src * 2)
                 ?q1 ?q2 (e1, e2)),
           Suc ?n)" for e1 e2
    using body_step [of rng ?n, OF u] by (simp add: store_block_stores)
  have p1: "[pixel s1 (2 * x) (2 * y), pixel s1 (2 * x + 1) (2 * y),
      pixel s1 (2 * x) (2 * y + 1), pixel s1 (2 * x + 1) (2 * y + 1)] = subpixels ?q1"
    using subpixels_block [OF w1 x y, unfolded h1 [symmetric], OF l1] eq by simp
  have p2: "[pixel s2 (2 * x) (2 * y), pixel s2 (2 * x + 1) (2 * y),
      pixel s2 (2 * x) (2 * y + 1), pixel s2 (2 * x + 1) (2 * y + 1)] = subpixels ?q2"
    using subpixels_block [OF w2 x y, unfolded h2 [symmetric], OF l2] eq by simp
  show ?thesis
    using run len bd p1 p2 by blast
qed

section \<open>The two tables\<close>

lemma lt6: "r < (6::nat) \<Longrightarrow> r = 0 \<or> r = 1 \<or> r = 2 \<or> r = 3 \<or> r = 4 \<or> r = 5"
  by arith

lemma colours_patterns:
  "colours (patterns ! 0) = [W, W, B, B]"
  "colours (patterns ! 1) = [B, B, W, W]"
  "colours (patterns ! 2) = [W, B, W, B]"
  "colours (patterns ! 3) = [B, W, B, W]"
  "colours (patterns ! 4) = [W, B, B, W]"
  "colours (patterns ! 5) = [B, W, W, B]"
  "colours (patterns ! Suc 0) = [B, B, W, W]"
  by (simp_all add: patterns_def colours_def subpixels_def colour_of_def)

lemma blackPairs_cover:
  "(i, j) \<in> set blackPairs \<Longrightarrow>
   overlay (colours (patterns ! i)) (colours (patterns ! j)) = [B, B, B, B]"
  by (auto simp add: blackPairs_def colours_patterns overlay_def)

lemma blackPairs_nth: "r < 6 \<Longrightarrow> (fst (blackPairs ! r), snd (blackPairs ! r)) \<in> set blackPairs"
  by (simp add: length_blackPairs)

lemma pick_black:
  assumes "is_double u" "lt_one u"
  obtains i j where "(i, j) \<in> set blackPairs" "pick u True = (patterns ! i, patterns ! j)"
proof -
  obtain r where r: "randInt u 6 = Some r" "0 \<le> r" "r < 6"
    using randInt_range [OF assms] by blast
  let ?pr = "blackPairs ! nat r"
  have "(fst ?pr, snd ?pr) \<in> set blackPairs"
    using r by (intro blackPairs_nth) simp
  moreover have "pick u True = (patterns ! fst ?pr, patterns ! snd ?pr)"
    using r by (simp add: pick_def Let_def)
  ultimately show ?thesis by (rule that)
qed

lemma pick_in_patterns:
  assumes "is_double u" "lt_one u"
  shows "fst (pick u b) \<in> set patterns \<and> snd (pick u b) \<in> set patterns"
  using assms
  by (rule randInt_cases) (simp_all add: pick_def blackPairs_def patterns_def)

lemma overlay_same: "overlay c c = c"
  unfolding overlay_def by (induction c) (auto intro: colour.exhaust)

lemma black_at_patterns:
  "black_at (patterns ! 0) = {2, 3}"
  "black_at (patterns ! 1) = {0, 1}"
  "black_at (patterns ! 2) = {1, 3}"
  "black_at (patterns ! 3) = {0, 2}"
  "black_at (patterns ! 4) = {1, 2}"
  "black_at (patterns ! 5) = {0, 3}"
  "black_at (patterns ! Suc 0) = {0, 1}"
proof -
  have four: "{0..<4::nat} = {0, 1, 2, 3}" by auto
  show "black_at (patterns ! 0) = {2, 3}"
    "black_at (patterns ! 1) = {0, 1}"
    "black_at (patterns ! 2) = {1, 3}"
    "black_at (patterns ! 3) = {0, 2}"
    "black_at (patterns ! 4) = {1, 2}"
    "black_at (patterns ! 5) = {0, 3}"
    "black_at (patterns ! Suc 0) = {0, 1}"
    unfolding black_at_def colours_patterns four by auto
qed

lemma blackPairs_complement:
  assumes "(i, j) \<in> set blackPairs"
  shows "black_at (patterns ! i) \<inter> black_at (patterns ! j) = {} \<and>
         black_at (patterns ! i) \<union> black_at (patterns ! j) = {0..<4}"
proof -
  have four: "{0..<4::nat} = {0, 1, 2, 3}" by auto
  show ?thesis
    using assms unfolding four by (auto simp add: blackPairs_def black_at_patterns)
qed

lemma blackPairs_differ:
  assumes "(i, j) \<in> set blackPairs"
  shows "patterns ! i \<noteq> patterns ! j"
  using assms by (auto simp add: blackPairs_def patterns_def)

lemma patterns_two_black:
  assumes "r < 6"
  shows "card (black_at (patterns ! r)) = 2"
  using lt6 [OF assms] by (elim disjE) (simp_all add: black_at_patterns)

lemma patterns_bytes:
  "\<forall>p \<in> set patterns. length p = 16 \<and>
     (\<forall>px \<in> set (subpixels p). px = [0, 0, 0, 255] \<or> px = [0, 0, 0, 0])"
  by (simp add: patterns_def subpixels_def)

section \<open>The sample inputs\<close>

lemma wf_sample: "wf_image black_white_2x1"
  by (simp add: wf_image_def black_white_2x1_def)

lemma draws_sample: "unit_draws sample_draws (width black_white_2x1 * height black_white_2x1)"
  by (simp add: unit_draws_def sample_draws_def is_double_def lt_one_def)

lemma pixel_sample:
  "pixel black_white_2x1 0 0 = [0, 0, 0, 255]"
  "pixel black_white_2x1 1 0 = [255, 255, 255, 255]"
  by (simp_all add: pixel_def black_white_2x1_def)

lemma size_sample: "width black_white_2x1 = 2" "height black_white_2x1 = 1"
  by (simp_all add: black_white_2x1_def)

lemma wf_gray: "wf_image black_gray_2x1"
  by (simp add: wf_image_def black_gray_2x1_def)

lemma draws_gray: "unit_draws sample_draws (width black_gray_2x1 * height black_gray_2x1)"
  by (simp add: unit_draws_def sample_draws_def is_double_def lt_one_def)

lemma size_gray: "width black_gray_2x1 = 2" "height black_gray_2x1 = 1"
  by (simp_all add: black_gray_2x1_def)

lemma randInt_sample:
  "randInt (sample_draws 0) 6 = Some 3" "randInt (sample_draws 1) 6 = Some 1"
  "randInt (sample_draws (Suc 0)) 6 = Some 1"
  by code_simp+

lemma wf_white: "wf_image white_1x1"
  by (simp add: wf_image_def white_1x1_def)

lemma size_white: "width white_1x1 = 1" "height white_1x1 = 1"
  by (simp_all add: white_1x1_def)

lemma draws_rounding: "unit_draws rounding_draws (width white_1x1 * height white_1x1)"
  by (simp add: unit_draws_def rounding_draws_def is_double_def lt_one_def)

lemma randInt_rounding: "randInt (rounding_draws 0) 6 = Some 5"
  by code_simp

text \<open>Doubles whose exact product with 6 lies just below an integer and is rounded up to
  it (0.8333333333333333, 0.6666666666666666, 0.3333333333333333, 0.16666666666666666),
  the largest double below 1, and a double whose product with 6 is \<open>Infinity\<close>.\<close>

lemma randInt_rounded_up:
  "randInt (7505999378950826, - 53) 6 = Some 5"
  "randInt (6004799503160661, - 53) 6 = Some 4"
  "randInt (6004799503160661, - 54) 6 = Some 2"
  "randInt (6004799503160661, - 55) 6 = Some 1"
  "randInt (9007199254740991, - 53) 6 = Some 5"
  "randInt (9007199254740991, 971) 6 = None"
  by code_simp+

lemma pair_sample: "(0, 1) \<in> set blackPairs"
  by (simp add: blackPairs_def)

section \<open>The claims\<close>

subsection \<open>C1\<close>

text \<open>
  Claim C1. For every pair \<open>(i, j)\<close> of \<open>blackPairs\<close>, pattern \<open>i\<close> laid over pattern \<open>j\<close>
  is black at all four sub-pixels. Hence, for every black source pixel and whatever the
  draw, the blocks of the two shares for that pixel, laid over each other, are black at
  all four sub-pixels.
\<close>

theorem black_pixel_overlay:
  "(\<forall>(i, j) \<in> set blackPairs.
      overlay (colours (patterns ! i)) (colours (patterns ! j)) = [B, B, B, B]) \<and>
   (wf_image src \<and> unit_draws rng (width src * height src) \<longrightarrow>
     (\<exists>s1 s2. shareImage rng src = Inr (s1, s2) \<and>
        (\<forall>x < width src. \<forall>y < height src.
           pixel src x y = [0, 0, 0, 255] \<longrightarrow>
           overlay (colours (block s1 x y)) (colours (block s2 x y)) = [B, B, B, B])))"
proof (intro conjI impI)
  show "\<forall>(i, j) \<in> set blackPairs.
      overlay (colours (patterns ! i)) (colours (patterns ! j)) = [B, B, B, B]"
    using blackPairs_cover by blast
next
  assume h: "wf_image src \<and> unit_draws rng (width src * height src)"
  then obtain s1 s2 where run: "shareImage rng src = Inr (s1, s2)"
    and blocks: "\<forall>x < width src. \<forall>y < height src.
        (block s1 x y, block s2 x y) =
          pick (rng (y * width src + x)) (pixel src x y = [0, 0, 0, 255])"
    using shareImage_blocks [of src rng] by blast
  have "overlay (colours (block s1 x y)) (colours (block s2 x y)) = [B, B, B, B]"
    if x: "x < width src" and y: "y < height src" and blk: "pixel src x y = [0, 0, 0, 255]"
    for x y
  proof -
    have u: "is_double (rng (y * width src + x))" "lt_one (rng (y * width src + x))"
      using draw_in_range [OF _ x y, of rng] h by blast+
    from u obtain i j where ij: "(i, j) \<in> set blackPairs"
      and pk: "pick (rng (y * width src + x)) True = (patterns ! i, patterns ! j)"
      by (rule pick_black)
    have "(block s1 x y, block s2 x y) = (patterns ! i, patterns ! j)"
      using blocks x y blk pk by simp
    then show ?thesis using blackPairs_cover [OF ij] by simp
  qed
  then show "\<exists>s1 s2. shareImage rng src = Inr (s1, s2) \<and>
        (\<forall>x < width src. \<forall>y < height src.
           pixel src x y = [0, 0, 0, 255] \<longrightarrow>
           overlay (colours (block s1 x y)) (colours (block s2 x y)) = [B, B, B, B])"
    using run by blast
qed

theorem black_pixel_overlay_witness:
  "wf_image black_white_2x1 \<and>
   unit_draws sample_draws (width black_white_2x1 * height black_white_2x1) \<and>
   0 < width black_white_2x1 \<and> 0 < height black_white_2x1 \<and>
   pixel black_white_2x1 0 0 = [0, 0, 0, 255] \<and>
   (\<exists>s1 s2. shareImage sample_draws black_white_2x1 = Inr (s1, s2) \<and>
      overlay (colours (block s1 0 0)) (colours (block s2 0 0)) = [B, B, B, B])"
proof -
  have x: "0 < width black_white_2x1" and y: "0 < height black_white_2x1"
    and p: "pixel black_white_2x1 0 0 = [0, 0, 0, 255]"
    by (simp_all add: size_sample pixel_sample)
  obtain s1 s2 where run: "shareImage sample_draws black_white_2x1 = Inr (s1, s2)"
    and all: "\<forall>x < width black_white_2x1. \<forall>y < height black_white_2x1.
           pixel black_white_2x1 x y = [0, 0, 0, 255] \<longrightarrow>
           overlay (colours (block s1 x y)) (colours (block s2 x y)) = [B, B, B, B]"
    using black_pixel_overlay [of black_white_2x1 sample_draws] wf_sample draws_sample
    by blast
  show ?thesis
    using wf_sample draws_sample x y p run all [rule_format, OF x y p] by blast
qed

subsection \<open>C2\<close>

text \<open>
  Claim C2 says that the table of patterns is the table printed in section 4.1 of the
  specification. It is not: pattern 0 of the encoder is white, white, black, black (its
  bytes are 0, 0, 0, 0, then 0, 0, 0, 0, then 0, 0, 0, 255, then 0, 0, 0, 255), and the
  specification prints white, white, white, black.
\<close>

theorem printed_table_counterexample:
  "map colours patterns \<noteq> spec_pattern_table \<and>
   colours (patterns ! 0) = [W, W, B, B] \<and> spec_pattern_table ! 0 = [W, W, W, B]"
  by (simp add: patterns_def spec_pattern_table_def colours_def subpixels_def colour_of_def)

text \<open>
  Claim C2, amended. The table of the encoder has exactly six patterns; read row by row
  (top-left, top-right, bottom-left, bottom-right) they are pattern 0 = W, W, B, B;
  pattern 1 = B, B, W, W; pattern 2 = W, B, W, B; pattern 3 = B, W, B, W;
  pattern 4 = W, B, B, W; pattern 5 = B, W, W, B, where B is a sub-pixel of bytes
  0, 0, 0, 255 and W any other.
\<close>

theorem encoder_patterns_read:
  "length patterns = 6 \<and>
   map colours patterns =
     [[W, W, B, B],
      [B, B, W, W],
      [W, B, W, B],
      [B, W, B, W],
      [W, B, B, W],
      [B, W, W, B]]"
  by (simp add: patterns_def colours_def subpixels_def colour_of_def)

subsection \<open>C3\<close>

text \<open>
  Claim C3 says that every stored sub-pixel has alpha 255 and that a white sub-pixel has
  red, green and blue 255. For the source of one white pixel and the draw 0 the encoder
  stores pattern 0 in both shares, and the top-left sub-pixel of either share has the
  bytes 0, 0, 0, 0: a white sub-pixel, of alpha 0 and red, green and blue 0.
\<close>

theorem opaque_subpixels_counterexample:
  "shareImage zero_draws white_1x1 = Inr (share_of_white_1x1, share_of_white_1x1) \<and>
   pixel share_of_white_1x1 0 0 = [0, 0, 0, 0]"
  by code_simp

text \<open>
  Claim C3, amended. Every pattern has 16 bytes, each of its four sub-pixels being
  0, 0, 0, 255 or 0, 0, 0, 0; and every sub-pixel of either share has red, green and
  blue 0, and alpha 255 where it is black and 0 (fully transparent) where it is white.
\<close>

theorem subpixel_encoding:
  "(\<forall>p \<in> set patterns. length p = 16 \<and>
      (\<forall>px \<in> set (subpixels p). px = [0, 0, 0, 255] \<or> px = [0, 0, 0, 0])) \<and>
   (wf_image src \<and> unit_draws rng (width src * height src) \<longrightarrow>
     (\<exists>s1 s2. shareImage rng src = Inr (s1, s2) \<and>
        (\<forall>X < 2 * width src. \<forall>Y < 2 * height src.
           (pixel s1 X Y = [0, 0, 0, 255] \<or> pixel s1 X Y = [0, 0, 0, 0]) \<and>
           (pixel s2 X Y = [0, 0, 0, 255] \<or> pixel s2 X Y = [0, 0, 0, 0]))))"
proof (intro conjI impI)
  show "\<forall>p \<in> set patterns. length p = 16 \<and>
      (\<forall>px \<in> set (subpixels p). px = [0, 0, 0, 255] \<or> px = [0, 0, 0, 0])"
    by (rule patterns_bytes)
next
  assume h: "wf_image src \<and> unit_draws rng (width src * height src)"
  then obtain s1 s2 where run: "shareImage rng src = Inr (s1, s2)"
    and w1: "width s1 = 2 * width src" and l1: "length (data s1) = 4 * (width s1 * height s1)"
    and h1: "height s1 = 2 * height src"
    and w2: "width s2 = 2 * width src" and l2: "length (data s2) = 4 * (width s2 * height s2)"
    and h2: "height s2 = 2 * height src"
    and blocks: "\<forall>x < width src. \<forall>y < height src.
        (block s1 x y, block s2 x y) =
          pick (rng (y * width src + x)) (pixel src x y = [0, 0, 0, 255])"
    using shareImage_blocks [of src rng] by blast
  have "(pixel s1 X Y = [0, 0, 0, 255] \<or> pixel s1 X Y = [0, 0, 0, 0]) \<and>
        (pixel s2 X Y = [0, 0, 0, 255] \<or> pixel s2 X Y = [0, 0, 0, 0])"
    if X: "X < 2 * width src" and Y: "Y < 2 * height src" for X Y
  proof -
    let ?x = "X div 2" and ?y = "Y div 2"
    have x: "?x < width src" and y: "?y < height src" using X Y by simp_all
    have u: "is_double (rng (?y * width src + ?x))" "lt_one (rng (?y * width src + ?x))"
      using draw_in_range [OF _ x y, of rng] h by blast+
    have mem: "block s1 ?x ?y \<in> set patterns" "block s2 ?x ?y \<in> set patterns"
      using pick_in_patterns [OF u, of "pixel src ?x ?y = [0, 0, 0, 255]"]
        blocks [rule_format, OF x y] by (simp_all add: prod_eq_iff)
    have sp: "set (subpixels (block s ?x ?y)) =
        {pixel s (2 * ?x) (2 * ?y), pixel s (2 * ?x + 1) (2 * ?y),
         pixel s (2 * ?x) (2 * ?y + 1), pixel s (2 * ?x + 1) (2 * ?y + 1)}"
      if "width s = 2 * width src" "length (data s) = 4 * (width s * (2 * height src))" for s
      using subpixels_block [OF that(1) x y that(2)] by simp
    have "X = 2 * ?x \<or> X = 2 * ?x + 1" "Y = 2 * ?y \<or> Y = 2 * ?y + 1"
      by presburger+
    then have "pixel s X Y \<in> set (subpixels (block s ?x ?y))"
      if "width s = 2 * width src" "length (data s) = 4 * (width s * (2 * height src))" for s
      unfolding sp [OF that] by auto
    then have "pixel s1 X Y \<in> set (subpixels (block s1 ?x ?y))"
      "pixel s2 X Y \<in> set (subpixels (block s2 ?x ?y))"
      using w1 l1 h1 w2 l2 h2 by simp_all
    then show ?thesis using mem patterns_bytes by blast
  qed
  with run show "\<exists>s1 s2. shareImage rng src = Inr (s1, s2) \<and>
        (\<forall>X < 2 * width src. \<forall>Y < 2 * height src.
           (pixel s1 X Y = [0, 0, 0, 255] \<or> pixel s1 X Y = [0, 0, 0, 0]) \<and>
           (pixel s2 X Y = [0, 0, 0, 255] \<or> pixel s2 X Y = [0, 0, 0, 0]))"
    by blast
qed

theorem subpixel_encoding_witness:
  "patterns ! 0 \<in> set patterns \<and> length (patterns ! 0) = 16 \<and>
   take 4 (patterns ! 0) \<in> set (subpixels (patterns ! 0)) \<and>
   take 4 (patterns ! 0) = [0, 0, 0, 0] \<and>
   wf_image black_white_2x1 \<and>
   unit_draws sample_draws (width black_white_2x1 * height black_white_2x1) \<and>
   3 < 2 * width black_white_2x1 \<and> 1 < 2 * height black_white_2x1 \<and>
   (\<exists>s1 s2. shareImage sample_draws black_white_2x1 = Inr (s1, s2) \<and>
      (pixel s1 3 1 = [0, 0, 0, 255] \<or> pixel s1 3 1 = [0, 0, 0, 0]) \<and>
      (pixel s2 3 1 = [0, 0, 0, 255] \<or> pixel s2 3 1 = [0, 0, 0, 0]))"
proof -
  note t = subpixel_encoding [of black_white_2x1 sample_draws]
  have p: "patterns ! 0 \<in> set patterns"
    by (simp add: patterns_def)
  have q: "take 4 (patterns ! 0) \<in> set (subpixels (patterns ! 0))"
    by (simp add: subpixels_def)
  have v: "take 4 (patterns ! 0) = [0, 0, 0, 0]"
    by (simp add: patterns_def)
  have len: "length (patterns ! 0) = 16"
    using t p by blast
  have X: "3 < 2 * width black_white_2x1" and Y: "1 < 2 * height black_white_2x1"
    by (simp_all add: size_sample)
  obtain s1 s2 where run: "shareImage sample_draws black_white_2x1 = Inr (s1, s2)"
    and all: "\<forall>X < 2 * width black_white_2x1. \<forall>Y < 2 * height black_white_2x1.
           (pixel s1 X Y = [0, 0, 0, 255] \<or> pixel s1 X Y = [0, 0, 0, 0]) \<and>
           (pixel s2 X Y = [0, 0, 0, 255] \<or> pixel s2 X Y = [0, 0, 0, 0])"
    using t wf_sample draws_sample by blast
  show ?thesis
    using p len q v wf_sample draws_sample X Y run all [rule_format, OF X Y] by blast
qed

subsection \<open>C4\<close>

text \<open>
  Claim C4. For every white source pixel (a pixel that is not 0, 0, 0, 255) and whatever
  the draw, the blocks of the two shares for that pixel, laid over each other, have
  exactly two black and two white sub-pixels: the overlay is neither all black nor all
  white.
\<close>

theorem white_pixel_overlay:
  assumes "wf_image src" "unit_draws rng (width src * height src)"
  shows "\<exists>s1 s2. shareImage rng src = Inr (s1, s2) \<and>
     (\<forall>x < width src. \<forall>y < height src.
        pixel src x y \<noteq> [0, 0, 0, 255] \<longrightarrow>
        count_list (overlay (colours (block s1 x y)) (colours (block s2 x y))) B = 2 \<and>
        count_list (overlay (colours (block s1 x y)) (colours (block s2 x y))) W = 2 \<and>
        length (overlay (colours (block s1 x y)) (colours (block s2 x y))) = 4 \<and>
        overlay (colours (block s1 x y)) (colours (block s2 x y)) \<noteq> [B, B, B, B] \<and>
        overlay (colours (block s1 x y)) (colours (block s2 x y)) \<noteq> [W, W, W, W])"
proof -
  obtain s1 s2 where run: "shareImage rng src = Inr (s1, s2)"
    and br: "\<forall>x < width src. \<forall>y < height src.
        (\<exists>r. randInt (rng (y * width src + x)) 6 = Some r \<and> 0 \<le> r \<and> r < 6 \<and>
           (pixel src x y = [0, 0, 0, 255] \<longrightarrow>
              block s1 x y = patterns ! fst (blackPairs ! nat r) \<and>
              block s2 x y = patterns ! snd (blackPairs ! nat r)) \<and>
           (pixel src x y \<noteq> [0, 0, 0, 255] \<longrightarrow>
              block s1 x y = patterns ! nat r \<and>
              block s2 x y = patterns ! nat r))"
    using shareImage_branches [OF assms] by blast
  have "count_list (overlay (colours (block s1 x y)) (colours (block s2 x y))) B = 2 \<and>
        count_list (overlay (colours (block s1 x y)) (colours (block s2 x y))) W = 2 \<and>
        length (overlay (colours (block s1 x y)) (colours (block s2 x y))) = 4 \<and>
        overlay (colours (block s1 x y)) (colours (block s2 x y)) \<noteq> [B, B, B, B] \<and>
        overlay (colours (block s1 x y)) (colours (block s2 x y)) \<noteq> [W, W, W, W]"
    if x: "x < width src" and y: "y < height src" and wh: "pixel src x y \<noteq> [0, 0, 0, 255]"
    for x y
  proof -
    obtain r where r: "0 \<le> r" "r < 6"
      and eq: "block s1 x y = patterns ! nat r" "block s2 x y = patterns ! nat r"
      using br [rule_format, OF x y] wh by blast
    have n: "nat r < 6" using r by (rule nat_lt6)
    have ov: "overlay (colours (block s1 x y)) (colours (block s2 x y)) =
        colours (patterns ! nat r)"
      unfolding eq by (rule overlay_same)
    show ?thesis
      unfolding ov using lt6 [OF n] by (elim disjE) (simp_all add: colours_patterns)
  qed
  with run show ?thesis by blast
qed

theorem white_pixel_overlay_witness:
  "wf_image black_white_2x1 \<and>
   unit_draws sample_draws (width black_white_2x1 * height black_white_2x1) \<and>
   1 < width black_white_2x1 \<and> 0 < height black_white_2x1 \<and>
   pixel black_white_2x1 1 0 \<noteq> [0, 0, 0, 255] \<and>
   (\<exists>s1 s2. shareImage sample_draws black_white_2x1 = Inr (s1, s2) \<and>
      count_list (overlay (colours (block s1 1 0)) (colours (block s2 1 0))) B = 2 \<and>
      count_list (overlay (colours (block s1 1 0)) (colours (block s2 1 0))) W = 2)"
proof -
  have x: "1 < width black_white_2x1" and y: "0 < height black_white_2x1"
    by (simp_all add: size_sample)
  have p: "pixel black_white_2x1 1 0 \<noteq> [0, 0, 0, 255]"
    unfolding pixel_sample by simp
  obtain s1 s2 where run: "shareImage sample_draws black_white_2x1 = Inr (s1, s2)"
    and all: "\<forall>x < width black_white_2x1. \<forall>y < height black_white_2x1.
        pixel black_white_2x1 x y \<noteq> [0, 0, 0, 255] \<longrightarrow>
        count_list (overlay (colours (block s1 x y)) (colours (block s2 x y))) B = 2 \<and>
        count_list (overlay (colours (block s1 x y)) (colours (block s2 x y))) W = 2 \<and>
        length (overlay (colours (block s1 x y)) (colours (block s2 x y))) = 4 \<and>
        overlay (colours (block s1 x y)) (colours (block s2 x y)) \<noteq> [B, B, B, B] \<and>
        overlay (colours (block s1 x y)) (colours (block s2 x y)) \<noteq> [W, W, W, W]"
    using white_pixel_overlay [OF wf_sample draws_sample] by blast
  show ?thesis
    using wf_sample draws_sample x y p run all [rule_format, OF x y p] by blast
qed

subsection \<open>C5\<close>

text \<open>
  Claim C5. The encoder takes a source pixel for black exactly when its four channels are
  0, 0, 0, 255. For a black pixel it stores the two patterns of the black pair at the
  index that \<open>randInt\<close> returns; for every other pixel, grey or partly transparent ones
  included, it takes the white branch and stores the pattern at that index in both
  shares. No error is raised.
\<close>

theorem isBlack_classification:
  assumes "wf_image src" "unit_draws rng (width src * height src)"
  shows "\<exists>s1 s2. shareImage rng src = Inr (s1, s2) \<and>
     (\<forall>x < width src. \<forall>y < height src.
        (isBlack (data src) (4 * (y * width src + x)) \<longleftrightarrow>
           data src ! (4 * (y * width src + x)) = 0 \<and>
           data src ! (4 * (y * width src + x) + 1) = 0 \<and>
           data src ! (4 * (y * width src + x) + 2) = 0 \<and>
           data src ! (4 * (y * width src + x) + 3) = 255) \<and>
        (\<exists>r. randInt (rng (y * width src + x)) 6 = Some r \<and> 0 \<le> r \<and> r < 6 \<and>
           (isBlack (data src) (4 * (y * width src + x)) \<longrightarrow>
              block s1 x y = patterns ! fst (blackPairs ! nat r) \<and>
              block s2 x y = patterns ! snd (blackPairs ! nat r)) \<and>
           (\<not> isBlack (data src) (4 * (y * width src + x)) \<longrightarrow>
              block s1 x y = patterns ! nat r \<and>
              block s2 x y = patterns ! nat r)))"
proof -
  obtain s1 s2 where run: "shareImage rng src = Inr (s1, s2)"
    and br: "\<forall>x < width src. \<forall>y < height src.
        (\<exists>r. randInt (rng (y * width src + x)) 6 = Some r \<and> 0 \<le> r \<and> r < 6 \<and>
           (pixel src x y = [0, 0, 0, 255] \<longrightarrow>
              block s1 x y = patterns ! fst (blackPairs ! nat r) \<and>
              block s2 x y = patterns ! snd (blackPairs ! nat r)) \<and>
           (pixel src x y \<noteq> [0, 0, 0, 255] \<longrightarrow>
              block s1 x y = patterns ! nat r \<and>
              block s2 x y = patterns ! nat r))"
    using shareImage_branches [OF assms] by blast
  have "(isBlack (data src) (4 * (y * width src + x)) \<longleftrightarrow>
           data src ! (4 * (y * width src + x)) = 0 \<and>
           data src ! (4 * (y * width src + x) + 1) = 0 \<and>
           data src ! (4 * (y * width src + x) + 2) = 0 \<and>
           data src ! (4 * (y * width src + x) + 3) = 255) \<and>
        (\<exists>r. randInt (rng (y * width src + x)) 6 = Some r \<and> 0 \<le> r \<and> r < 6 \<and>
           (isBlack (data src) (4 * (y * width src + x)) \<longrightarrow>
              block s1 x y = patterns ! fst (blackPairs ! nat r) \<and>
              block s2 x y = patterns ! snd (blackPairs ! nat r)) \<and>
           (\<not> isBlack (data src) (4 * (y * width src + x)) \<longrightarrow>
              block s1 x y = patterns ! nat r \<and>
              block s2 x y = patterns ! nat r))"
    if x: "x < width src" and y: "y < height src" for x y
    using br [rule_format, OF x y] isBlack_pixel [OF assms(1) x y]
      isBlack_channels [of "4 * (y * width src + x)" "data src"]
    by blast
  with run show ?thesis by blast
qed

theorem isBlack_classification_witness:
  "wf_image black_gray_2x1 \<and>
   unit_draws sample_draws (width black_gray_2x1 * height black_gray_2x1) \<and>
   1 < width black_gray_2x1 \<and> 0 < height black_gray_2x1 \<and>
   \<not> isBlack (data black_gray_2x1) 4 \<and>
   randInt (sample_draws 1) 6 = Some 1 \<and>
   (\<exists>s1 s2. shareImage sample_draws black_gray_2x1 = Inr (s1, s2) \<and>
      block s1 1 0 = patterns ! 1 \<and> block s2 1 0 = patterns ! 1)"
proof -
  have x: "1 < width black_gray_2x1" and y: "0 < height black_gray_2x1"
    by (simp_all add: size_gray)
  have g: "\<not> isBlack (data black_gray_2x1) 4"
    by (simp add: isBlack_def index_def black_gray_2x1_def)
  have i: "4 * (0 * width black_gray_2x1 + 1) = 4" "0 * width black_gray_2x1 + 1 = 1"
    by simp_all
  obtain s1 s2 where run: "shareImage sample_draws black_gray_2x1 = Inr (s1, s2)"
    and all: "\<forall>x < width black_gray_2x1. \<forall>y < height black_gray_2x1.
        (isBlack (data black_gray_2x1) (4 * (y * width black_gray_2x1 + x)) \<longleftrightarrow>
           data black_gray_2x1 ! (4 * (y * width black_gray_2x1 + x)) = 0 \<and>
           data black_gray_2x1 ! (4 * (y * width black_gray_2x1 + x) + 1) = 0 \<and>
           data black_gray_2x1 ! (4 * (y * width black_gray_2x1 + x) + 2) = 0 \<and>
           data black_gray_2x1 ! (4 * (y * width black_gray_2x1 + x) + 3) = 255) \<and>
        (\<exists>r. randInt (sample_draws (y * width black_gray_2x1 + x)) 6 = Some r \<and>
           0 \<le> r \<and> r < 6 \<and>
           (isBlack (data black_gray_2x1) (4 * (y * width black_gray_2x1 + x)) \<longrightarrow>
              block s1 x y = patterns ! fst (blackPairs ! nat r) \<and>
              block s2 x y = patterns ! snd (blackPairs ! nat r)) \<and>
           (\<not> isBlack (data black_gray_2x1) (4 * (y * width black_gray_2x1 + x)) \<longrightarrow>
              block s1 x y = patterns ! nat r \<and>
              block s2 x y = patterns ! nat r))"
    using isBlack_classification [OF wf_gray draws_gray] by blast
  obtain r where r: "randInt (sample_draws 1) 6 = Some r"
    and b: "block s1 1 0 = patterns ! nat r" "block s2 1 0 = patterns ! nat r"
    using all [rule_format, OF x y] g unfolding i mult_1_right by blast
  have "r = 1" using r randInt_sample(2) by simp
  then have "block s1 1 0 = patterns ! 1 \<and> block s2 1 0 = patterns ! 1"
    using b by simp
  then show ?thesis
    using wf_gray draws_gray x y g run randInt_sample(2) by blast
qed

subsection \<open>C6\<close>

text \<open>
  Claim C6. For every white source pixel one index \<open>r\<close> with \<open>0 \<le> r < 6\<close> is drawn, the
  value of \<open>randInt\<close> at the draw of that pixel, and the pattern \<open>patterns ! r\<close> is stored
  into the block of both shares: the two blocks are equal byte for byte.
\<close>

theorem white_pixel_same_pattern:
  assumes "wf_image src" "unit_draws rng (width src * height src)"
  shows "\<exists>s1 s2. shareImage rng src = Inr (s1, s2) \<and>
     (\<forall>x < width src. \<forall>y < height src.
        pixel src x y \<noteq> [0, 0, 0, 255] \<longrightarrow>
        (\<exists>r. randInt (rng (y * width src + x)) (length patterns) = Some r \<and>
           0 \<le> r \<and> r < 6 \<and>
           block s1 x y = patterns ! nat r \<and>
           block s2 x y = patterns ! nat r \<and>
           block s1 x y = block s2 x y))"
  using shareImage_branches [OF assms] unfolding length_patterns by fastforce

theorem white_pixel_same_pattern_witness:
  "wf_image white_1x1 \<and>
   unit_draws rounding_draws (width white_1x1 * height white_1x1) \<and>
   0 < width white_1x1 \<and> 0 < height white_1x1 \<and>
   pixel white_1x1 0 0 \<noteq> [0, 0, 0, 255] \<and>
   randInt (rounding_draws 0) (length patterns) = Some 5 \<and>
   (\<exists>s1 s2. shareImage rounding_draws white_1x1 = Inr (s1, s2) \<and>
      block s1 0 0 = patterns ! 5 \<and> block s2 0 0 = patterns ! 5 \<and>
      block s1 0 0 = block s2 0 0)"
proof -
  have x: "0 < width white_1x1" and y: "0 < height white_1x1"
    by (simp_all add: size_white)
  have p: "pixel white_1x1 0 0 \<noteq> [0, 0, 0, 255]"
    by (simp add: pixel_def white_1x1_def)
  have i: "0 * width white_1x1 + 0 = 0"
    by simp
  have d: "randInt (rounding_draws 0) (length patterns) = Some 5"
    unfolding length_patterns by (rule randInt_rounding)
  obtain s1 s2 where run: "shareImage rounding_draws white_1x1 = Inr (s1, s2)"
    and all: "\<forall>x < width white_1x1. \<forall>y < height white_1x1.
        pixel white_1x1 x y \<noteq> [0, 0, 0, 255] \<longrightarrow>
        (\<exists>r. randInt (rounding_draws (y * width white_1x1 + x)) (length patterns) = Some r \<and>
           0 \<le> r \<and> r < 6 \<and>
           block s1 x y = patterns ! nat r \<and>
           block s2 x y = patterns ! nat r \<and>
           block s1 x y = block s2 x y)"
    using white_pixel_same_pattern [OF wf_white draws_rounding] by blast
  obtain r where r: "randInt (rounding_draws 0) (length patterns) = Some r"
    and b: "block s1 0 0 = patterns ! nat r" "block s2 0 0 = patterns ! nat r"
    using all [rule_format, OF x y p] unfolding i by blast
  have "r = 5" using r d by simp
  then have "block s1 0 0 = patterns ! 5 \<and> block s2 0 0 = patterns ! 5 \<and>
      block s1 0 0 = block s2 0 0"
    using b by simp
  then show ?thesis
    using wf_white draws_rounding x y p d run by blast
qed

subsection \<open>C7\<close>

text \<open>
  Claim C7. For the source pixel \<open>(x, y)\<close> the offset \<open>j\<close> that the encoder computes is the
  row-major byte offset of the pixel \<open>(2x, 2y)\<close> in a raster of width \<open>2 * sw\<close>. The stores
  of the inner loop assign exactly the bytes of the pixels \<open>(2x, 2y)\<close>, \<open>(2x+1, 2y)\<close>,
  \<open>(2x, 2y+1)\<close>, \<open>(2x+1, 2y+1)\<close>: they leave every other byte of both shares as it was,
  and afterwards the block of \<open>(x, y)\<close> in each share is the pattern stored. The bytes
  assigned for two different source pixels are disjoint. And the encoder does so: for
  every source pixel \<open>(x, y)\<close> the body of its loop is these stores, at this offset, of
  two patterns, and in the shares it returns the pixels \<open>(2x, 2y)\<close>, \<open>(2x+1, 2y)\<close>,
  \<open>(2x, 2y+1)\<close>, \<open>(2x+1, 2y+1)\<close> are the four sub-pixels of these patterns.
\<close>

theorem block_placement:
  assumes "0 < sw" "x < sw" "x' < sw"
  shows "offset sw (sw * 2) (4 * (y * sw + x)) = 4 * ((2 * y) * (2 * sw) + 2 * x) \<and>
    written (offset sw (sw * 2) (4 * (y * sw + x))) (sw * 2) =
      pixel_bytes (2 * sw) (2 * x) (2 * y) \<union> pixel_bytes (2 * sw) (2 * x + 1) (2 * y) \<union>
      pixel_bytes (2 * sw) (2 * x) (2 * y + 1) \<union> pixel_bytes (2 * sw) (2 * x + 1) (2 * y + 1) \<and>
    (\<forall>m. m \<notin> written (offset sw (sw * 2) (4 * (y * sw + x))) (sw * 2) \<longrightarrow>
       fst (store_block (offset sw (sw * 2) (4 * (y * sw + x))) (sw * 2) p1 p2 (d1, d2)) ! m
         = d1 ! m \<and>
       snd (store_block (offset sw (sw * 2) (4 * (y * sw + x))) (sw * 2) p1 p2 (d1, d2)) ! m
         = d2 ! m) \<and>
    (length p1 = 16 \<and> length p2 = 16 \<and>
     offset sw (sw * 2) (4 * (y * sw + x)) + sw * 2 * 4 + 8 \<le> length d1 \<and>
     offset sw (sw * 2) (4 * (y * sw + x)) + sw * 2 * 4 + 8 \<le> length d2 \<longrightarrow>
       block \<lparr>width = sw * 2, height = h,
          data = fst (store_block (offset sw (sw * 2) (4 * (y * sw + x))) (sw * 2) p1 p2 (d1, d2))\<rparr>
         x y = p1 \<and>
       block \<lparr>width = sw * 2, height = h,
          data = snd (store_block (offset sw (sw * 2) (4 * (y * sw + x))) (sw * 2) p1 p2 (d1, d2))\<rparr>
         x y = p2) \<and>
    ((x, y) \<noteq> (x', y') \<longrightarrow>
       written (offset sw (sw * 2) (4 * (y * sw + x))) (sw * 2) \<inter>
       written (offset sw (sw * 2) (4 * (y' * sw + x'))) (sw * 2) = {}) \<and>
    (wf_image src \<and> width src = sw \<and> y < height src \<and>
     unit_draws rng (width src * height src) \<longrightarrow>
       (\<exists>s1 s2 q1 q2. shareImage rng src = Inr (s1, s2) \<and>
          length q1 = 16 \<and> length q2 = 16 \<and>
          (\<forall>e1 e2.
             body rng (data src) sw (sw * 2) (4 * (y * sw + x)) (e1, e2, y * sw + x) =
               Inr (fst (store_block (offset sw (sw * 2) (4 * (y * sw + x))) (sw * 2)
                          q1 q2 (e1, e2)),
                    snd (store_block (offset sw (sw * 2) (4 * (y * sw + x))) (sw * 2)
                          q1 q2 (e1, e2)),
                    Suc (y * sw + x))) \<and>
          [pixel s1 (2 * x) (2 * y), pixel s1 (2 * x + 1) (2 * y),
           pixel s1 (2 * x) (2 * y + 1), pixel s1 (2 * x + 1) (2 * y + 1)] = subpixels q1 \<and>
          [pixel s2 (2 * x) (2 * y), pixel s2 (2 * x + 1) (2 * y),
           pixel s2 (2 * x) (2 * y + 1), pixel s2 (2 * x + 1) (2 * y + 1)] = subpixels q2))"
proof (intro conjI allI impI)
  show off: "offset sw (sw * 2) (4 * (y * sw + x)) = 4 * ((2 * y) * (2 * sw) + 2 * x)"
    using assms(1,2) by (rule offset_xy)
  show "written (offset sw (sw * 2) (4 * (y * sw + x))) (sw * 2) =
      pixel_bytes (2 * sw) (2 * x) (2 * y) \<union> pixel_bytes (2 * sw) (2 * x + 1) (2 * y) \<union>
      pixel_bytes (2 * sw) (2 * x) (2 * y + 1) \<union> pixel_bytes (2 * sw) (2 * x + 1) (2 * y + 1)"
    unfolding off by (rule written_pixels)
next
  fix m assume "m \<notin> written (offset sw (sw * 2) (4 * (y * sw + x))) (sw * 2)"
  then show
    "fst (store_block (offset sw (sw * 2) (4 * (y * sw + x))) (sw * 2) p1 p2 (d1, d2)) ! m
       = d1 ! m"
    "snd (store_block (offset sw (sw * 2) (4 * (y * sw + x))) (sw * 2) p1 p2 (d1, d2)) ! m
       = d2 ! m"
    by (rule store_block_frame)+
next
  let ?j = "offset sw (sw * 2) (4 * (y * sw + x))"
  assume h: "length p1 = 16 \<and> length p2 = 16 \<and>
     ?j + sw * 2 * 4 + 8 \<le> length d1 \<and> ?j + sw * 2 * 4 + 8 \<le> length d2"
  have w4: "8 \<le> sw * 2 * 4" using assms(1) by simp
  show "block \<lparr>width = sw * 2, height = h,
          data = fst (store_block ?j (sw * 2) p1 p2 (d1, d2))\<rparr> x y = p1"
    using block_region [OF assms(1,2), of "\<lparr>width = sw * 2, height = h,
          data = fst (store_block ?j (sw * 2) p1 p2 (d1, d2))\<rparr>" y]
      region_stores_same [OF w4, of ?j d1 p1] h
    by (simp add: store_block_stores)
  show "block \<lparr>width = sw * 2, height = h,
          data = snd (store_block ?j (sw * 2) p1 p2 (d1, d2))\<rparr> x y = p2"
    using block_region [OF assms(1,2), of "\<lparr>width = sw * 2, height = h,
          data = snd (store_block ?j (sw * 2) p1 p2 (d1, d2))\<rparr>" y]
      region_stores_same [OF w4, of ?j d2 p2] h
    by (simp add: store_block_stores)
next
  assume ne: "(x, y) \<noteq> (x', y')"
  have "y * sw + x \<noteq> y' * sw + x'"
    using pixel_number_inj [OF assms(2,3)] ne by blast
  then consider "y * sw + x < y' * sw + x'" | "y' * sw + x' < y * sw + x"
    by linarith
  then show "written (offset sw (sw * 2) (4 * (y * sw + x))) (sw * 2) \<inter>
       written (offset sw (sw * 2) (4 * (y' * sw + x'))) (sw * 2) = {}"
  proof cases
    case 1
    then show ?thesis using written_disjoint [OF assms(1)] by blast
  next
    case 2
    then show ?thesis using written_disjoint [OF assms(1)] by blast
  qed
next
  assume h: "wf_image src \<and> width src = sw \<and> y < height src \<and>
     unit_draws rng (width src * height src)"
  then have "x < width src" using assms(2) by simp
  then show "\<exists>s1 s2 q1 q2. shareImage rng src = Inr (s1, s2) \<and>
          length q1 = 16 \<and> length q2 = 16 \<and>
          (\<forall>e1 e2.
             body rng (data src) sw (sw * 2) (4 * (y * sw + x)) (e1, e2, y * sw + x) =
               Inr (fst (store_block (offset sw (sw * 2) (4 * (y * sw + x))) (sw * 2)
                          q1 q2 (e1, e2)),
                    snd (store_block (offset sw (sw * 2) (4 * (y * sw + x))) (sw * 2)
                          q1 q2 (e1, e2)),
                    Suc (y * sw + x))) \<and>
          [pixel s1 (2 * x) (2 * y), pixel s1 (2 * x + 1) (2 * y),
           pixel s1 (2 * x) (2 * y + 1), pixel s1 (2 * x + 1) (2 * y + 1)] = subpixels q1 \<and>
          [pixel s2 (2 * x) (2 * y), pixel s2 (2 * x + 1) (2 * y),
           pixel s2 (2 * x) (2 * y + 1), pixel s2 (2 * x + 1) (2 * y + 1)] = subpixels q2"
    using shareImage_placement [of src rng x y] h by blast
qed

theorem block_placement_witness:
  "(0::nat) < 2 \<and> (1::nat) < 2 \<and>
   offset 2 (2 * 2) (4 * (0 * 2 + 1)) = 8 \<and>
   0 \<notin> written (offset 2 (2 * 2) (4 * (0 * 2 + 1))) (2 * 2) \<and>
   fst (store_block (offset 2 (2 * 2) (4 * (0 * 2 + 1))) (2 * 2) (patterns ! 3) (patterns ! 2)
          (replicate 32 0, replicate 32 0)) ! 0 = 0 \<and>
   length (patterns ! 3) = 16 \<and> length (patterns ! 2) = 16 \<and>
   offset 2 (2 * 2) (4 * (0 * 2 + 1)) + 2 * 2 * 4 + 8 \<le> length (replicate 32 (0::byte)) \<and>
   block \<lparr>width = 2 * 2, height = 2,
      data = fst (store_block (offset 2 (2 * 2) (4 * (0 * 2 + 1))) (2 * 2)
                (patterns ! 3) (patterns ! 2) (replicate 32 0, replicate 32 0))\<rparr> 1 0
     = patterns ! 3 \<and>
   ((1::nat), (0::nat)) \<noteq> (0, 0) \<and>
   written (offset 2 (2 * 2) (4 * (0 * 2 + 1))) (2 * 2) \<inter>
     written (offset 2 (2 * 2) (4 * (0 * 2 + 0))) (2 * 2) = {} \<and>
   wf_image black_white_2x1 \<and> width black_white_2x1 = 2 \<and> 0 < height black_white_2x1 \<and>
   unit_draws sample_draws (width black_white_2x1 * height black_white_2x1) \<and>
   (\<exists>s1 s2 q1 q2. shareImage sample_draws black_white_2x1 = Inr (s1, s2) \<and>
      length q1 = 16 \<and> length q2 = 16 \<and>
      [pixel s1 (2 * 1) (2 * 0), pixel s1 (2 * 1 + 1) (2 * 0),
       pixel s1 (2 * 1) (2 * 0 + 1), pixel s1 (2 * 1 + 1) (2 * 0 + 1)] = subpixels q1 \<and>
      [pixel s2 (2 * 1) (2 * 0), pixel s2 (2 * 1 + 1) (2 * 0),
       pixel s2 (2 * 1) (2 * 0 + 1), pixel s2 (2 * 1 + 1) (2 * 0 + 1)] = subpixels q2)"
proof -
  note t = block_placement [where sw = 2 and x = 1 and x' = 0 and y = 0 and y' = 0
      and ?p1.0 = "patterns ! 3" and ?p2.0 = "patterns ! 2"
      and ?d1.0 = "replicate 32 0" and ?d2.0 = "replicate 32 0" and h = 2
      and src = black_white_2x1 and rng = sample_draws]
  have s: "(0::nat) < 2" "(1::nat) < 2" by simp_all
  have off: "offset 2 (2 * 2) (4 * (0 * 2 + 1)) = 8"
    using t [OF s(1) s(2) s(1)] by simp
  have nw: "0 \<notin> written (offset 2 (2 * 2) (4 * (0 * 2 + 1))) (2 * 2)"
    unfolding off written_ranges by simp
  have len: "length (patterns ! 3) = 16" "length (patterns ! 2) = 16"
    by (simp_all add: patterns_def)
  have fit: "offset 2 (2 * 2) (4 * (0 * 2 + 1)) + 2 * 2 * 4 + 8 \<le> length (replicate 32 (0::byte))"
    unfolding off by simp
  have ne: "((1::nat), (0::nat)) \<noteq> (0, 0)" by simp
  have "fst (store_block (offset 2 (2 * 2) (4 * (0 * 2 + 1))) (2 * 2) (patterns ! 3) (patterns ! 2)
          (replicate 32 0, replicate 32 0)) ! 0 = replicate 32 0 ! 0"
    using t [OF s(1) s(2) s(1)] nw by blast
  then have fr: "fst (store_block (offset 2 (2 * 2) (4 * (0 * 2 + 1))) (2 * 2) (patterns ! 3)
          (patterns ! 2) (replicate 32 0, replicate 32 0)) ! 0 = 0"
    by simp
  have bl: "block \<lparr>width = 2 * 2, height = 2,
      data = fst (store_block (offset 2 (2 * 2) (4 * (0 * 2 + 1))) (2 * 2)
                (patterns ! 3) (patterns ! 2) (replicate 32 0, replicate 32 0))\<rparr> 1 0
     = patterns ! 3"
    using t [OF s(1) s(2) s(1)] len fit by blast
  have dj: "written (offset 2 (2 * 2) (4 * (0 * 2 + 1))) (2 * 2) \<inter>
     written (offset 2 (2 * 2) (4 * (0 * 2 + 0))) (2 * 2) = {}"
    using t [OF s(1) s(2) s(1)] ne by blast
  have hy: "wf_image black_white_2x1" "width black_white_2x1 = 2"
    "0 < height black_white_2x1"
    "unit_draws sample_draws (width black_white_2x1 * height black_white_2x1)"
    using wf_sample draws_sample by (simp_all add: size_sample)
  have en: "\<exists>s1 s2 q1 q2. shareImage sample_draws black_white_2x1 = Inr (s1, s2) \<and>
      length q1 = 16 \<and> length q2 = 16 \<and>
      [pixel s1 (2 * 1) (2 * 0), pixel s1 (2 * 1 + 1) (2 * 0),
       pixel s1 (2 * 1) (2 * 0 + 1), pixel s1 (2 * 1 + 1) (2 * 0 + 1)] = subpixels q1 \<and>
      [pixel s2 (2 * 1) (2 * 0), pixel s2 (2 * 1 + 1) (2 * 0),
       pixel s2 (2 * 1) (2 * 0 + 1), pixel s2 (2 * 1 + 1) (2 * 0 + 1)] = subpixels q2"
    using t [OF s(1) s(2) s(1)] hy by blast
  show ?thesis
    using s off nw fr len fit bl ne dj hy en by blast
qed

subsection \<open>C8\<close>

text \<open>
  Claim C8. For every source raster of width \<open>w\<close> and height \<open>h\<close>, binary or not, and all
  draws, the encoder returns exactly two rasters, each of width \<open>2w\<close> and height \<open>2h\<close>
  and with four bytes for each of its pixels.
\<close>

theorem shareImage_dimensions:
  assumes "wf_image src" "unit_draws rng (width src * height src)"
  shows "\<exists>s1 s2. shareImage rng src = Inr (s1, s2) \<and>
     width s1 = 2 * width src \<and> height s1 = 2 * height src \<and>
     length (data s1) = 4 * (width s1 * height s1) \<and>
     width s2 = 2 * width src \<and> height s2 = 2 * height src \<and>
     length (data s2) = 4 * (width s2 * height s2)"
  using shareImage_blocks [OF assms] by blast

theorem shareImage_dimensions_witness:
  "wf_image black_white_2x1 \<and>
   unit_draws sample_draws (width black_white_2x1 * height black_white_2x1) \<and>
   (\<exists>s1 s2. shareImage sample_draws black_white_2x1 = Inr (s1, s2) \<and>
      width s1 = 4 \<and> height s1 = 2 \<and> length (data s1) = 32 \<and>
      width s2 = 4 \<and> height s2 = 2 \<and> length (data s2) = 32)"
proof -
  obtain s1 s2 where "shareImage sample_draws black_white_2x1 = Inr (s1, s2)"
    "width s1 = 2 * width black_white_2x1" "height s1 = 2 * height black_white_2x1"
    "length (data s1) = 4 * (width s1 * height s1)"
    "width s2 = 2 * width black_white_2x1" "height s2 = 2 * height black_white_2x1"
    "length (data s2) = 4 * (width s2 * height s2)"
    using shareImage_dimensions [OF wf_sample draws_sample] by blast
  then have "shareImage sample_draws black_white_2x1 = Inr (s1, s2) \<and>
      width s1 = 4 \<and> height s1 = 2 \<and> length (data s1) = 32 \<and>
      width s2 = 4 \<and> height s2 = 2 \<and> length (data s2) = 32"
    by (simp add: black_white_2x1_def)
  then show ?thesis using wf_sample draws_sample by blast
qed

subsection \<open>C10\<close>

text \<open>
  Claim C10. For every pair \<open>(i, j)\<close> of \<open>blackPairs\<close> the positions where pattern \<open>i\<close>
  is black and those where pattern \<open>j\<close> is black are disjoint and together are all four
  positions. Every pattern is black at exactly two positions. For a black source pixel
  the blocks of the two shares differ; for a white one they are equal.
\<close>

theorem complementary_pairs:
  "(\<forall>(i, j) \<in> set blackPairs.
      black_at (patterns ! i) \<inter> black_at (patterns ! j) = {} \<and>
      black_at (patterns ! i) \<union> black_at (patterns ! j) = {0..<4}) \<and>
   (\<forall>r \<in> {0..<length patterns}. card (black_at (patterns ! r)) = 2) \<and>
   (wf_image src \<and> unit_draws rng (width src * height src) \<longrightarrow>
     (\<exists>s1 s2. shareImage rng src = Inr (s1, s2) \<and>
        (\<forall>x < width src. \<forall>y < height src.
           (pixel src x y = [0, 0, 0, 255] \<longrightarrow> block s1 x y \<noteq> block s2 x y) \<and>
           (pixel src x y \<noteq> [0, 0, 0, 255] \<longrightarrow> block s1 x y = block s2 x y))))"
proof (intro conjI impI)
  show "\<forall>(i, j) \<in> set blackPairs.
      black_at (patterns ! i) \<inter> black_at (patterns ! j) = {} \<and>
      black_at (patterns ! i) \<union> black_at (patterns ! j) = {0..<4}"
    using blackPairs_complement by blast
next
  show "\<forall>r \<in> {0..<length patterns}. card (black_at (patterns ! r)) = 2"
    unfolding length_patterns using patterns_two_black by simp
next
  assume h: "wf_image src \<and> unit_draws rng (width src * height src)"
  then obtain s1 s2 where run: "shareImage rng src = Inr (s1, s2)"
    and br: "\<forall>x < width src. \<forall>y < height src.
        (\<exists>r. randInt (rng (y * width src + x)) 6 = Some r \<and> 0 \<le> r \<and> r < 6 \<and>
           (pixel src x y = [0, 0, 0, 255] \<longrightarrow>
              block s1 x y = patterns ! fst (blackPairs ! nat r) \<and>
              block s2 x y = patterns ! snd (blackPairs ! nat r)) \<and>
           (pixel src x y \<noteq> [0, 0, 0, 255] \<longrightarrow>
              block s1 x y = patterns ! nat r \<and>
              block s2 x y = patterns ! nat r))"
    using shareImage_branches [of src rng] by blast
  have "(pixel src x y = [0, 0, 0, 255] \<longrightarrow> block s1 x y \<noteq> block s2 x y) \<and>
        (pixel src x y \<noteq> [0, 0, 0, 255] \<longrightarrow> block s1 x y = block s2 x y)"
    if x: "x < width src" and y: "y < height src" for x y
  proof -
    obtain r where r: "0 \<le> r" "r < 6"
      and bl: "pixel src x y = [0, 0, 0, 255] \<longrightarrow>
          block s1 x y = patterns ! fst (blackPairs ! nat r) \<and>
          block s2 x y = patterns ! snd (blackPairs ! nat r)"
      and wh: "pixel src x y \<noteq> [0, 0, 0, 255] \<longrightarrow>
          block s1 x y = patterns ! nat r \<and> block s2 x y = patterns ! nat r"
      using br [rule_format, OF x y] by blast
    have "nat r < 6" using r by (rule nat_lt6)
    then have "patterns ! fst (blackPairs ! nat r) \<noteq> patterns ! snd (blackPairs ! nat r)"
      by (intro blackPairs_differ blackPairs_nth)
    then show ?thesis using bl wh by simp
  qed
  with run show "\<exists>s1 s2. shareImage rng src = Inr (s1, s2) \<and>
        (\<forall>x < width src. \<forall>y < height src.
           (pixel src x y = [0, 0, 0, 255] \<longrightarrow> block s1 x y \<noteq> block s2 x y) \<and>
           (pixel src x y \<noteq> [0, 0, 0, 255] \<longrightarrow> block s1 x y = block s2 x y))"
    by blast
qed

theorem complementary_pairs_witness:
  "(0, 1) \<in> set blackPairs \<and>
   black_at (patterns ! 0) \<inter> black_at (patterns ! 1) = {} \<and>
   black_at (patterns ! 0) \<union> black_at (patterns ! 1) = {0..<4} \<and>
   0 \<in> {0..<length patterns} \<and> card (black_at (patterns ! 0)) = 2 \<and>
   wf_image black_white_2x1 \<and>
   unit_draws sample_draws (width black_white_2x1 * height black_white_2x1) \<and>
   1 < width black_white_2x1 \<and> 0 < height black_white_2x1 \<and>
   pixel black_white_2x1 0 0 = [0, 0, 0, 255] \<and>
   pixel black_white_2x1 1 0 \<noteq> [0, 0, 0, 255] \<and>
   (\<exists>s1 s2. shareImage sample_draws black_white_2x1 = Inr (s1, s2) \<and>
      block s1 0 0 \<noteq> block s2 0 0 \<and> block s1 1 0 = block s2 1 0)"
proof -
  have x0: "0 < width black_white_2x1" and x1: "1 < width black_white_2x1"
    and y: "0 < height black_white_2x1"
    by (simp_all add: size_sample)
  have p0: "pixel black_white_2x1 0 0 = [0, 0, 0, 255]"
    by (rule pixel_sample)
  have p1: "pixel black_white_2x1 1 0 \<noteq> [0, 0, 0, 255]"
    unfolding pixel_sample by simp
  have r: "0 \<in> {0..<length patterns}"
    by (simp add: length_patterns)
  note t = complementary_pairs [of black_white_2x1 sample_draws]
  have tab: "black_at (patterns ! 0) \<inter> black_at (patterns ! 1) = {} \<and>
      black_at (patterns ! 0) \<union> black_at (patterns ! 1) = {0..<4}"
    using t pair_sample by blast
  have two: "card (black_at (patterns ! 0)) = 2"
    using t r by blast
  obtain s1 s2 where run: "shareImage sample_draws black_white_2x1 = Inr (s1, s2)"
    and all: "\<forall>x < width black_white_2x1. \<forall>y < height black_white_2x1.
           (pixel black_white_2x1 x y = [0, 0, 0, 255] \<longrightarrow> block s1 x y \<noteq> block s2 x y) \<and>
           (pixel black_white_2x1 x y \<noteq> [0, 0, 0, 255] \<longrightarrow> block s1 x y = block s2 x y)"
    using t wf_sample draws_sample by blast
  have "block s1 0 0 \<noteq> block s2 0 0" "block s1 1 0 = block s2 1 0"
    using all [rule_format, OF x0 y] all [rule_format, OF x1 y] p0 p1 by blast+
  then show ?thesis
    using pair_sample tab r two wf_sample draws_sample x1 y p0 p1 run by blast
qed

end
